theory Spec2Isabelle
  imports Complex_Main "HOL-Library.Product_Lexorder"
begin

section \<open>Python strings\<close>

text \<open>
  A Python \<open>str\<close> is a sequence of Unicode code points, so a string is a list of
  code points here and \<open>length\<close> is Python's \<open>len\<close>. ASCII literals are written
  \<open>u ''...''\<close>; other characters are written by their code point.

  Confidences are Python floats. The code only compares them, takes \<open>max\<close>, negates and
  halves them; on the decimal literals of the source these operations agree with the same
  operations on the reals, so a confidence is a \<open>real\<close> here.
\<close>

type_synonym ustring = "nat list"

definition u :: "string \<Rightarrow> ustring" where
  "u s = map of_char s"

text \<open>
  The decimal digits of Unicode 14 (general category Nd, what \<open>\d\<close> of the \<open>re\<close>
  module matches in a \<open>str\<close> pattern and what \<open>int\<close> converts): each script has a
  run of ten code points for 0 to 9, listed by the code point of its zero.
\<close>

definition nd_zeros :: "nat list" where
  "nd_zeros =
    [0x30, 0x660, 0x6F0, 0x7C0, 0x966, 0x9E6, 0xA66, 0xAE6, 0xB66, 0xBE6, 0xC66, 0xCE6,
     0xD66, 0xDE6, 0xE50, 0xED0, 0xF20, 0x1040, 0x1090, 0x17E0, 0x1810, 0x1946, 0x19D0,
     0x1A80, 0x1A90, 0x1B50, 0x1BB0, 0x1C40, 0x1C50, 0xA620, 0xA8D0, 0xA900, 0xA9D0,
     0xA9F0, 0xAA50, 0xABF0, 0xFF10, 0x104A0, 0x10D30, 0x11066, 0x110F0, 0x11136,
     0x111D0, 0x112F0, 0x11450, 0x114D0, 0x11650, 0x116C0, 0x11730, 0x118E0, 0x11950,
     0x11C50, 0x11D50, 0x11DA0, 0x16A60, 0x16AC0, 0x16B50, 0x1D7CE, 0x1D7D8, 0x1D7E2,
     0x1D7EC, 0x1D7F6, 0x1E140, 0x1E2F0, 0x1E950, 0x1FBF0]"

definition decimal_value :: "nat \<Rightarrow> nat option" where
  "decimal_value c =
     (case find (\<lambda>z. z \<le> c \<and> c < z + 10) nd_zeros of
        None \<Rightarrow> None
      | Some z \<Rightarrow> Some (c - z))"

definition is_decimal :: "nat \<Rightarrow> bool" where
  "is_decimal c = (decimal_value c \<noteq> None)"

text \<open>
  \<open>str.isdigit\<close> of one character: a decimal digit, or one of the other characters
  of numeric type Digit (superscripts, circled digits and the like).
\<close>

definition other_digit_ranges :: "(nat \<times> nat) list" where
  "other_digit_ranges =
    [(0xB2, 0xB3), (0xB9, 0xB9), (0x1369, 0x1371), (0x19DA, 0x19DA), (0x2070, 0x2070),
     (0x2074, 0x2079), (0x2080, 0x2089), (0x2460, 0x2468), (0x2474, 0x247C),
     (0x2488, 0x2490), (0x24EA, 0x24EA), (0x24F5, 0x24FD), (0x24FF, 0x24FF),
     (0x2776, 0x277E), (0x2780, 0x2788), (0x278A, 0x2792), (0x10A40, 0x10A43),
     (0x10E60, 0x10E68), (0x11052, 0x1105A), (0x1F100, 0x1F10A)]"

definition in_ranges :: "(nat \<times> nat) list \<Rightarrow> nat \<Rightarrow> bool" where
  "in_ranges rs c = list_ex (\<lambda>(lo, hi). lo \<le> c \<and> c \<le> hi) rs"

definition isdigit_char :: "nat \<Rightarrow> bool" where
  "isdigit_char c = (is_decimal c \<or> in_ranges other_digit_ranges c)"

definition isdigit :: "ustring \<Rightarrow> bool" where
  "isdigit s = (s \<noteq> [] \<and> list_all isdigit_char s)"

text \<open>White space as \<open>str.strip\<close>, \<open>str.split\<close> and \<open>\s\<close> see it.\<close>

definition space_ranges :: "(nat \<times> nat) list" where
  "space_ranges =
    [(0x9, 0xD), (0x1C, 0x20), (0x85, 0x85), (0xA0, 0xA0), (0x1680, 0x1680),
     (0x2000, 0x200A), (0x2028, 0x2029), (0x202F, 0x202F), (0x205F, 0x205F),
     (0x3000, 0x3000)]"

definition isspace_char :: "nat \<Rightarrow> bool" where
  "isspace_char c = in_ranges space_ranges c"

definition strip :: "ustring \<Rightarrow> ustring" where
  "strip s = rev (dropWhile isspace_char (rev (dropWhile isspace_char s)))"

text \<open>
  \<open>str.lower\<close>, character by character. The ASCII and Latin-1 capitals are mapped;
  so are the only two characters beyond ASCII whose lower case contains an ASCII
  character (the Kelvin sign and the dotted capital I). Every other character is left as
  it is: Python may map it to another character beyond ASCII, which no test of this
  program tells apart from the original.
\<close>

definition lower_char :: "nat \<Rightarrow> ustring" where
  "lower_char c =
     (if 0x41 \<le> c \<and> c \<le> 0x5A then [c + 32]
      else if 0xC0 \<le> c \<and> c \<le> 0xDE \<and> c \<noteq> 0xD7 then [c + 32]
      else if c = 0x212A then [0x6B]
      else if c = 0x130 then [0x69, 0x307]
      else [c])"

definition lower :: "ustring \<Rightarrow> ustring" where
  "lower s = concat (map lower_char s)"

definition startswith :: "ustring \<Rightarrow> ustring \<Rightarrow> bool" where
  "startswith s p = (take (length p) s = p)"

definition endswith :: "ustring \<Rightarrow> ustring \<Rightarrow> bool" where
  "endswith s p = (length p \<le> length s \<and> drop (length s - length p) s = p)"

text \<open>\<open>text[a:b]\<close> for \<open>0 \<le> a \<le> b\<close>, the only slices the program takes.\<close>

definition slice :: "ustring \<Rightarrow> int \<Rightarrow> int \<Rightarrow> ustring" where
  "slice s a b = take (nat (b - a)) (drop (nat a) s)"

text \<open>\<open>str.replace(old, '')\<close>: the occurrences of \<open>old\<close>, left to right, removed.\<close>

fun remove_all :: "'a list \<Rightarrow> 'a list \<Rightarrow> 'a list" where
  "remove_all old [] = []"
| "remove_all old (c # cs) =
     (if old \<noteq> [] \<and> take (length old) (c # cs) = old
      then remove_all old (drop (length old) (c # cs))
      else c # remove_all old cs)"

text \<open>The decimal text of a number, as an f-string prints it.\<close>

fun str_nat :: "nat \<Rightarrow> ustring" where
  "str_nat n = (if n < 10 then [0x30 + n] else str_nat (n div 10) @ [0x30 + n mod 10])"

definition str_int :: "int \<Rightarrow> ustring" where
  "str_int i = (if i < 0 then 0x2D # str_nat (nat (- i)) else str_nat (nat i))"

section \<open>Exceptions\<close>

datatype py_error = ValueError | IndexError

text \<open>
  \<open>int(s)\<close> on a non-empty string of decimal digits is its value in base ten. On any
  other string the model answers \<open>ValueError\<close>; Python accepts a few more (a sign,
  surrounding white space, underscores), so the model raises wherever Python does.
\<close>

definition digit_of :: "nat \<Rightarrow> int" where
  "digit_of c = (case decimal_value c of None \<Rightarrow> 0 | Some d \<Rightarrow> int d)"

definition py_int :: "ustring \<Rightarrow> py_error + int" where
  "py_int s =
     (if s \<noteq> [] \<and> list_all is_decimal s
      then Inr (foldl (\<lambda>acc c. 10 * acc + digit_of c) 0 s)
      else Inl ValueError)"

text \<open>\<open>[int(d) for d in s]\<close>\<close>

fun int_each :: "ustring \<Rightarrow> py_error + int list" where
  "int_each [] = Inr []"
| "int_each (c # cs) =
     (case py_int [c] of
        Inl e \<Rightarrow> Inl e
      | Inr d \<Rightarrow> (case int_each cs of Inl e \<Rightarrow> Inl e | Inr ds \<Rightarrow> Inr (d # ds)))"

text \<open>\<open>xs[i]\<close> for \<open>i \<ge> 0\<close>.\<close>

definition index :: "'a list \<Rightarrow> nat \<Rightarrow> py_error + 'a" where
  "index xs i = (if i < length xs then Inr (xs ! i) else Inl IndexError)"

section \<open>Validators\<close>

record ValidationResult =
  is_valid :: bool
  confidence :: real
  message :: ustring
  cleaned_value :: "ustring option"

text \<open>\<open>re.sub(r'\D', '', s)\<close>: every character that is not a decimal digit is removed.\<close>

definition clean :: "ustring \<Rightarrow> ustring" where
  "clean s = filter is_decimal s"

text \<open>\<open>sum(d * w for d, w in zip(ds, ws))\<close>\<close>

definition weighted_sum :: "int list \<Rightarrow> int list \<Rightarrow> int" where
  "weighted_sum ds ws = sum_list (map (\<lambda>(d, w). d * w) (zip ds ws))"

subsection \<open>CPFValidator\<close>

definition INVALID_CPFS :: "ustring list" where
  "INVALID_CPFS = map (\<lambda>c. replicate 11 c)
     [0x30, 0x31, 0x32, 0x33, 0x34, 0x35, 0x36, 0x37, 0x38, 0x39]"

definition CPF_WEIGHTS_FIRST :: "int list" where
  "CPF_WEIGHTS_FIRST = [10, 9, 8, 7, 6, 5, 4, 3, 2]"

definition CPF_WEIGHTS_SECOND :: "int list" where
  "CPF_WEIGHTS_SECOND = [11, 10, 9, 8, 7, 6, 5, 4, 3, 2]"

definition digitos :: ustring where
  "digitos = u ''d'' @ [0xED] @ u ''gitos''"

definition digito :: ustring where
  "digito = u ''d'' @ [0xED] @ u ''gito''"

definition invalido :: ustring where
  "invalido = u ''inv'' @ [0xE1] @ u ''lido''"

definition valido :: ustring where
  "valido = u ''v'' @ [0xE1] @ u ''lido''"

definition sequencia_invalida :: ustring where
  "sequencia_invalida =
     u '' com sequ'' @ [0xEA] @ u ''ncia inv'' @ [0xE1] @ u ''lida ('' @ digitos
       @ u '' repetidos)''"

text \<open>\<open>(sum * 10 % 11) % 10\<close> over the weighted sum, as \<open>validate\<close> computes it.\<close>

definition cpf_expected :: "int list \<Rightarrow> int list \<Rightarrow> int" where
  "cpf_expected ds ws = (weighted_sum ds ws * 10 mod 11) mod 10"

definition cpf_msg_length :: "nat \<Rightarrow> ustring" where
  "cpf_msg_length n = u ''CPF deve ter 11 '' @ digitos @ u '', encontrado: '' @ str_nat n"

definition cpf_msg_check :: "ustring \<Rightarrow> int \<Rightarrow> int \<Rightarrow> ustring" where
  "cpf_msg_check which expected found =
     which @ u '' '' @ digito @ u '' verificador '' @ invalido @ u '': esperado ''
       @ str_int expected @ u '', encontrado '' @ str_int found"

definition cpf_msg_valid :: ustring where
  "cpf_msg_valid = u ''CPF '' @ valido @ u '' - '' @ digitos @ u '' verificadores conferem''"

definition CPFValidator_validate :: "ustring \<Rightarrow> py_error + ValidationResult" where
  "CPFValidator_validate cpf =
     (let cleaned = clean cpf in
      if length cleaned \<noteq> 11 then
        Inr \<lparr>is_valid = False, confidence = 0,
             message = cpf_msg_length (length cleaned), cleaned_value = None\<rparr>
      else if \<not> isdigit cleaned then
        Inr \<lparr>is_valid = False, confidence = 0,
             message = u ''CPF deve conter apenas '' @ digitos, cleaned_value = None\<rparr>
      else if cleaned \<in> set INVALID_CPFS then
        Inr \<lparr>is_valid = False, confidence = 0,
             message = u ''CPF'' @ sequencia_invalida, cleaned_value = None\<rparr>
      else
        (case int_each cleaned of
           Inl e \<Rightarrow> Inl e
         | Inr digits \<Rightarrow>
            (let expected_first = cpf_expected (take 9 digits) CPF_WEIGHTS_FIRST in
             (case index digits 9 of
                Inl e \<Rightarrow> Inl e
              | Inr d9 \<Rightarrow>
                 if expected_first \<noteq> d9 then
                   Inr \<lparr>is_valid = False, confidence = 0.3,
                        message = cpf_msg_check (u ''Primeiro'') expected_first d9,
                        cleaned_value = Some cleaned\<rparr>
                 else
                   (let expected_second = cpf_expected (take 10 digits) CPF_WEIGHTS_SECOND in
                    (case index digits 10 of
                       Inl e \<Rightarrow> Inl e
                     | Inr d10 \<Rightarrow>
                        if expected_second \<noteq> d10 then
                          Inr \<lparr>is_valid = False, confidence = 0.3,
                               message = cpf_msg_check (u ''Segundo'') expected_second d10,
                               cleaned_value = Some cleaned\<rparr>
                        else
                          Inr \<lparr>is_valid = True, confidence = 0.98,
                               message = cpf_msg_valid,
                               cleaned_value = Some cleaned\<rparr>))))))"

subsection \<open>CNPJValidator\<close>

definition WEIGHTS_FIRST :: "int list" where
  "WEIGHTS_FIRST = [5, 4, 3, 2, 9, 8, 7, 6, 5, 4, 3, 2]"

definition WEIGHTS_SECOND :: "int list" where
  "WEIGHTS_SECOND = [6, 5, 4, 3, 2, 9, 8, 7, 6, 5, 4, 3, 2]"

definition INVALID_CNPJS :: "ustring list" where
  "INVALID_CNPJS = map (\<lambda>c. replicate 14 c)
     [0x30, 0x31, 0x32, 0x33, 0x34, 0x35, 0x36, 0x37, 0x38, 0x39]"

text \<open>\<open>remainder = sum % 11; 0 if remainder < 2 else 11 - remainder\<close>\<close>

definition cnpj_expected :: "int list \<Rightarrow> int list \<Rightarrow> int" where
  "cnpj_expected ds ws =
     (let remainder = weighted_sum ds ws mod 11
      in if remainder < 2 then 0 else 11 - remainder)"

definition cnpj_msg_length :: "nat \<Rightarrow> ustring" where
  "cnpj_msg_length n = u ''CNPJ deve ter 14 '' @ digitos @ u '', encontrado: '' @ str_nat n"

definition cnpj_msg_check :: "ustring \<Rightarrow> ustring" where
  "cnpj_msg_check which = which @ u '' '' @ digito @ u '' verificador '' @ invalido"

definition cnpj_msg_valid :: ustring where
  "cnpj_msg_valid = u ''CNPJ '' @ valido @ u '' - '' @ digitos @ u '' verificadores conferem''"

definition CNPJValidator_validate :: "ustring \<Rightarrow> py_error + ValidationResult" where
  "CNPJValidator_validate cnpj =
     (let cleaned = clean cnpj in
      if length cleaned \<noteq> 14 then
        Inr \<lparr>is_valid = False, confidence = 0,
             message = cnpj_msg_length (length cleaned), cleaned_value = None\<rparr>
      else if \<not> isdigit cleaned then
        Inr \<lparr>is_valid = False, confidence = 0,
             message = u ''CNPJ deve conter apenas '' @ digitos, cleaned_value = None\<rparr>
      else if cleaned \<in> set INVALID_CNPJS then
        Inr \<lparr>is_valid = False, confidence = 0,
             message = u ''CNPJ'' @ sequencia_invalida, cleaned_value = None\<rparr>
      else
        (case int_each cleaned of
           Inl e \<Rightarrow> Inl e
         | Inr digits \<Rightarrow>
            (let expected_first = cnpj_expected (take 12 digits) WEIGHTS_FIRST in
             (case index digits 12 of
                Inl e \<Rightarrow> Inl e
              | Inr d12 \<Rightarrow>
                 if expected_first \<noteq> d12 then
                   Inr \<lparr>is_valid = False, confidence = 0.3,
                        message = cnpj_msg_check (u ''Primeiro''),
                        cleaned_value = Some cleaned\<rparr>
                 else
                   (let expected_second = cnpj_expected (take 13 digits) WEIGHTS_SECOND in
                    (case index digits 13 of
                       Inl e \<Rightarrow> Inl e
                     | Inr d13 \<Rightarrow>
                        if expected_second \<noteq> d13 then
                          Inr \<lparr>is_valid = False, confidence = 0.3,
                               message = cnpj_msg_check (u ''Segundo''),
                               cleaned_value = Some cleaned\<rparr>
                        else
                          Inr \<lparr>is_valid = True, confidence = 0.98,
                               message = cnpj_msg_valid,
                               cleaned_value = Some cleaned\<rparr>))))))"

subsection \<open>PhoneValidator\<close>

definition VALID_DDDS :: "int list" where
  "VALID_DDDS =
    [11, 12, 13, 14, 15, 16, 17, 18, 19,
     21, 22, 24, 27, 28,
     31, 32, 33, 34, 35, 37, 38,
     41, 42, 43, 44, 45, 46, 47, 48, 49,
     51, 53, 54, 55,
     61, 62, 63, 64, 65, 66, 67, 68, 69,
     71, 73, 74, 75, 77, 79,
     81, 82, 83, 84, 85, 86, 87, 88, 89,
     91, 92, 93, 94, 95, 96, 97, 98, 99]"

definition phone_msg_length :: "nat \<Rightarrow> ustring" where
  "phone_msg_length n =
     u ''Telefone deve ter 10 ou 11 '' @ digitos @ u '', encontrado: '' @ str_nat n"

definition phone_msg_ddd :: "int \<Rightarrow> ustring" where
  "phone_msg_ddd ddd =
     u ''DDD '' @ str_int ddd @ u '' n'' @ [0xE3] @ u ''o '' @ [0xE9] @ u '' '' @ valido
       @ u '' no Brasil''"

definition phone_msg_nine :: ustring where
  "phone_msg_nine =
     u ''Celular com 11 '' @ digitos @ u '' deve ter terceiro '' @ digito @ u '' = 9''"

definition phone_msg_valid :: "ustring \<Rightarrow> int \<Rightarrow> ustring" where
  "phone_msg_valid phone_type ddd =
     u ''Telefone '' @ phone_type @ u '' '' @ valido @ u '' - DDD '' @ str_int ddd"

text \<open>The country code is dropped from a number that has more than eleven digits.\<close>

definition remove_ddi :: "ustring \<Rightarrow> ustring" where
  "remove_ddi cleaned =
     (if startswith cleaned (u ''55'') \<and> length cleaned > 11 then drop 2 cleaned
      else cleaned)"

definition PhoneValidator_validate :: "ustring \<Rightarrow> py_error + ValidationResult" where
  "PhoneValidator_validate phone =
     (let cleaned = remove_ddi (clean phone) in
      if length cleaned \<notin> {10, 11} then
        Inr \<lparr>is_valid = False, confidence = 0,
             message = phone_msg_length (length cleaned), cleaned_value = None\<rparr>
      else
        (case py_int (take 2 cleaned) of
           Inl e \<Rightarrow> Inl e
         | Inr ddd \<Rightarrow>
            if ddd \<notin> set VALID_DDDS then
              Inr \<lparr>is_valid = False, confidence = 0.4,
                   message = phone_msg_ddd ddd, cleaned_value = Some cleaned\<rparr>
            else
              (case (if length cleaned = 11 then index cleaned 2 else Inr 0x39) of
                 Inl e \<Rightarrow> Inl e
               | Inr third \<Rightarrow>
                  if length cleaned = 11 \<and> third \<noteq> 0x39 then
                    Inr \<lparr>is_valid = False, confidence = 0.5,
                         message = phone_msg_nine, cleaned_value = Some cleaned\<rparr>
                  else if length (remdups (drop 2 cleaned)) = 1 then
                    Inr \<lparr>is_valid = False, confidence = 0.2,
                         message = u ''Telefone com '' @ digitos @ u '' repetidos'',
                         cleaned_value = Some cleaned\<rparr>
                  else
                    (let phone_type = (if length cleaned = 11 then u ''celular''
                                       else u ''fixo'')
                     in Inr \<lparr>is_valid = True, confidence = 0.90,
                             message = phone_msg_valid phone_type ddd,
                             cleaned_value = Some cleaned\<rparr>))))"

subsection \<open>CEPValidator\<close>

definition regions :: "int \<Rightarrow> ustring" where
  "regions d =
     (if d = 0 then u ''S'' @ [0xE3] @ u ''o Paulo - Capital''
      else if d = 1 then u ''S'' @ [0xE3] @ u ''o Paulo - Interior''
      else if d = 2 then u ''Rio de Janeiro / Esp'' @ [0xED] @ u ''rito Santo''
      else if d = 3 then u ''Minas Gerais''
      else if d = 4 then u ''Bahia / Sergipe''
      else if d = 5 then u ''Nordeste (PE, AL, PB, RN)''
      else if d = 6 then u ''Norte/Nordeste (CE, PI, MA, PA, AM, AC, AP, RR)''
      else if d = 7 then u ''Centro-Oeste (GO, TO, MT, MS, DF)''
      else if d = 8 then u ''Sul (PR, SC)''
      else if d = 9 then u ''Rio Grande do Sul''
      else u ''Regi'' @ [0xE3] @ u ''o desconhecida'')"

definition cep_msg_length :: "nat \<Rightarrow> ustring" where
  "cep_msg_length n = u ''CEP deve ter 8 '' @ digitos @ u '', encontrado: '' @ str_nat n"

definition cep_msg_valid :: "ustring \<Rightarrow> ustring" where
  "cep_msg_valid region = u ''CEP '' @ valido @ u '' - Regi'' @ [0xE3] @ u ''o: '' @ region"

definition CEPValidator_validate :: "ustring \<Rightarrow> py_error + ValidationResult" where
  "CEPValidator_validate cep =
     (let cleaned = clean cep in
      if length cleaned \<noteq> 8 then
        Inr \<lparr>is_valid = False, confidence = 0,
             message = cep_msg_length (length cleaned), cleaned_value = None\<rparr>
      else if \<not> isdigit cleaned then
        Inr \<lparr>is_valid = False, confidence = 0,
             message = u ''CEP deve conter apenas '' @ digitos, cleaned_value = None\<rparr>
      else if length (remdups cleaned) = 1 then
        Inr \<lparr>is_valid = False, confidence = 0,
             message = u ''CEP com '' @ digitos @ u '' repetidos'', cleaned_value = None\<rparr>
      else
        (case index cleaned 0 of
           Inl e \<Rightarrow> Inl e
         | Inr c \<Rightarrow>
            (case py_int [c] of
               Inl e \<Rightarrow> Inl e
             | Inr first_digit \<Rightarrow>
                Inr \<lparr>is_valid = True, confidence = 0.85,
                     message = cep_msg_valid (regions first_digit),
                     cleaned_value = Some cleaned\<rparr>)))"

subsection \<open>EmailValidator\<close>

definition COMMON_TLDS :: "ustring list" where
  "COMMON_TLDS = map u
    [''com'', ''com.br'', ''org'', ''org.br'', ''net'', ''net.br'', ''gov'', ''gov.br'',
     ''edu'', ''edu.br'', ''mil'', ''mil.br'', ''info'', ''biz'', ''io'', ''co'',
     ''br'', ''pt'', ''us'', ''uk'', ''de'', ''fr'', ''es'', ''it'', ''jp'', ''cn'']"

definition ascii_alpha :: "nat \<Rightarrow> bool" where
  "ascii_alpha c = ((0x41 \<le> c \<and> c \<le> 0x5A) \<or> (0x61 \<le> c \<and> c \<le> 0x7A))"

definition ascii_alnum :: "nat \<Rightarrow> bool" where
  "ascii_alnum c = (ascii_alpha c \<or> (0x30 \<le> c \<and> c \<le> 0x39))"

text \<open>The two character classes of \<open>EMAIL_PATTERN\<close>.\<close>

definition local_char :: "nat \<Rightarrow> bool" where
  "local_char c = (ascii_alnum c \<or> c \<in> set (u ''._%+-''))"

definition domain_char :: "nat \<Rightarrow> bool" where
  "domain_char c = (ascii_alnum c \<or> c \<in> set (u ''.-''))"

text \<open>The text before and after the last occurrence of a separator.\<close>

definition before_last :: "nat \<Rightarrow> ustring \<Rightarrow> ustring" where
  "before_last sep s = rev (drop 1 (dropWhile (\<lambda>c. c \<noteq> sep) (rev s)))"

definition after_last :: "nat \<Rightarrow> ustring \<Rightarrow> ustring" where
  "after_last sep s = rev (takeWhile (\<lambda>c. c \<noteq> sep) (rev s))"

text \<open>
  \<open>EMAIL_PATTERN.match(s)\<close>: a non-empty local part of \<open>local_char\<close>s, an at sign, a
  non-empty run of \<open>domain_char\<close>s, a dot and at least two ASCII letters, up to the end
  of the string. No class holds the at sign, so it occurs once; the letters hold no dot,
  so the dot is the last one. The final \<open>$\<close> also matches before one trailing newline.
\<close>

definition email_core :: "ustring \<Rightarrow> bool" where
  "email_core s =
     (0x40 \<in> set s \<and>
      (let local = before_last 0x40 s; domain = after_last 0x40 s in
       local \<noteq> [] \<and> list_all local_char local \<and>
       0x2E \<in> set domain \<and> list_all domain_char domain \<and>
       before_last 0x2E domain \<noteq> [] \<and>
       list_all ascii_alpha (after_last 0x2E domain) \<and>
       2 \<le> length (after_last 0x2E domain)))"

definition EMAIL_PATTERN_match :: "ustring \<Rightarrow> bool" where
  "EMAIL_PATTERN_match s =
     (email_core s \<or> (s \<noteq> [] \<and> last s = 0x0A \<and> email_core (butlast s)))"

text \<open>\<open>email.rsplit('@', 1)\<close> unpacked into two names: \<open>ValueError\<close> without an at sign.\<close>

definition rsplit_at :: "ustring \<Rightarrow> py_error + (ustring \<times> ustring)" where
  "rsplit_at s =
     (if 0x40 \<in> set s then Inr (before_last 0x40 s, after_last 0x40 s)
      else Inl ValueError)"

definition email_msg_format :: ustring where
  "email_msg_format = u ''Formato de email '' @ invalido"

definition email_msg_local :: ustring where
  "email_msg_local =
     u ''Parte local do email muito longa (m'' @ [0xE1] @ u ''ximo 64 caracteres)''"

definition email_msg_domain :: ustring where
  "email_msg_domain =
     u ''Dom'' @ [0xED] @ u ''nio do email muito longo (m'' @ [0xE1]
       @ u ''ximo 255 caracteres)''"

definition email_msg_valid :: ustring where
  "email_msg_valid = u ''Email com formato '' @ valido"

definition EmailValidator_validate :: "ustring \<Rightarrow> py_error + ValidationResult" where
  "EmailValidator_validate email0 =
     (let email = lower (strip email0) in
      if \<not> EMAIL_PATTERN_match email then
        Inr \<lparr>is_valid = False, confidence = 0,
             message = email_msg_format, cleaned_value = None\<rparr>
      else
        (case rsplit_at email of
           Inl e \<Rightarrow>
             Inr \<lparr>is_valid = False, confidence = 0,
                  message = u ''Email deve conter exatamente um @'', cleaned_value = None\<rparr>
         | Inr (local, domain) \<Rightarrow>
             if length local > 64 then
               Inr \<lparr>is_valid = False, confidence = 0.3,
                    message = email_msg_local, cleaned_value = None\<rparr>
             else if length domain > 255 then
               Inr \<lparr>is_valid = False, confidence = 0.3,
                    message = email_msg_domain, cleaned_value = None\<rparr>
             else if length (after_last 0x2E domain) < 2 then
               Inr \<lparr>is_valid = False, confidence = 0.3,
                    message = u ''TLD do email '' @ invalido, cleaned_value = None\<rparr>
             else
               Inr \<lparr>is_valid = True,
                    confidence = (if list_ex (\<lambda>t. endswith domain (0x2E # t)) COMMON_TLDS
                                  then 0.95 else 0.85),
                    message = email_msg_valid,
                    cleaned_value = Some email\<rparr>))"

section \<open>Regular expressions\<close>

text \<open>
  The expressions are matched by Python's \<open>re\<close> module, which is not part of this
  program. An expression is named by the list that holds it and its position there
  (\<open>Listed\<close>), or by the local variable that holds it (\<open>Inline\<close>); the engine is a
  parameter that gives, for an expression and a text, what \<open>finditer\<close> yields: the
  matches from left to right, each with the spans of the whole match and of its first two
  groups. The text of a group is the slice of the text at its span. All catalogue and
  contextual expressions are compiled with \<open>IGNORECASE\<close>, as is each inline expression
  except \<open>name_keywords\<close>, \<open>cpf_aggressive\<close> and \<open>phone_aggressive\<close>.
\<close>

datatype regex = Listed string nat | Inline string

record re_match =
  span0 :: "int \<times> int"
  span1 :: "int \<times> int"
  span2 :: "int \<times> int"

type_synonym re_engine = "regex \<Rightarrow> ustring \<Rightarrow> re_match list"

definition group :: "ustring \<Rightarrow> (int \<times> int) \<Rightarrow> ustring" where
  "group text sp = slice text (fst sp) (snd sp)"

section \<open>patterns.py\<close>

datatype PIIType =
    CPF | CNPJ | TELEFONE | CELULAR | EMAIL | CEP | RG | CNH | TITULO_ELEITOR
  | PIS_PASEP | CARTAO_CREDITO | NOME_PESSOA | ENDERECO | DATA_NASCIMENTO
  | PLACA_VEICULO | PASSAPORTE

fun PIIType_value :: "PIIType \<Rightarrow> string" where
  "PIIType_value CPF = ''CPF''"
| "PIIType_value CNPJ = ''CNPJ''"
| "PIIType_value TELEFONE = ''TELEFONE''"
| "PIIType_value CELULAR = ''CELULAR''"
| "PIIType_value EMAIL = ''EMAIL''"
| "PIIType_value CEP = ''CEP''"
| "PIIType_value RG = ''RG''"
| "PIIType_value CNH = ''CNH''"
| "PIIType_value TITULO_ELEITOR = ''TITULO_ELEITOR''"
| "PIIType_value PIS_PASEP = ''PIS_PASEP''"
| "PIIType_value CARTAO_CREDITO = ''CARTAO_CREDITO''"
| "PIIType_value NOME_PESSOA = ''NOME_PESSOA''"
| "PIIType_value ENDERECO = ''ENDERECO''"
| "PIIType_value DATA_NASCIMENTO = ''DATA_NASCIMENTO''"
| "PIIType_value PLACA_VEICULO = ''PLACA_VEICULO''"
| "PIIType_value PASSAPORTE = ''PASSAPORTE''"

record PatternConfig =
  pattern :: regex
  pii_type :: PIIType
  description :: ustring
  priority :: nat
  requires_validation :: bool
  pc_min_confidence :: real

subsection \<open>BrazilianPatterns\<close>

definition CPF_PATTERNS :: "PatternConfig list" where
  "CPF_PATTERNS =
    [\<lparr>pattern = Listed ''CPF_PATTERNS'' 0, pii_type = CPF,
      description = u ''CPF padr'' @ [0xE3] @ u ''o com ou sem formata'' @ [0xE7] @ [0xE3] @ u ''o'',
      priority = 1, requires_validation = True, pc_min_confidence = 0.9\<rparr>,
     \<lparr>pattern = Listed ''CPF_PATTERNS'' 1, pii_type = CPF,
      description = u ''CPF com espa'' @ [0xE7] @ u ''os'',
      priority = 1, requires_validation = True, pc_min_confidence = 0.85\<rparr>,
     \<lparr>pattern = Listed ''CPF_PATTERNS'' 2, pii_type = CPF,
      description = u ''CPF sem separadores intermedi'' @ [0xE1] @ u ''rios'',
      priority = 2, requires_validation = True, pc_min_confidence = 0.8\<rparr>]"

definition CNPJ_PATTERNS :: "PatternConfig list" where
  "CNPJ_PATTERNS =
    [\<lparr>pattern = Listed ''CNPJ_PATTERNS'' 0, pii_type = CNPJ,
      description = u ''CNPJ matriz'',
      priority = 1, requires_validation = True, pc_min_confidence = 0.95\<rparr>,
     \<lparr>pattern = Listed ''CNPJ_PATTERNS'' 1, pii_type = CNPJ,
      description = u ''CNPJ padr'' @ [0xE3] @ u ''o'',
      priority = 1, requires_validation = True, pc_min_confidence = 0.9\<rparr>,
     \<lparr>pattern = Listed ''CNPJ_PATTERNS'' 2, pii_type = CNPJ,
      description = u ''CNPJ sem formata'' @ [0xE7] @ [0xE3] @ u ''o'',
      priority = 2, requires_validation = True, pc_min_confidence = 0.7\<rparr>]"

definition PHONE_PATTERNS :: "PatternConfig list" where
  "PHONE_PATTERNS =
    [\<lparr>pattern = Listed ''PHONE_PATTERNS'' 0, pii_type = TELEFONE,
      description = u ''Telefone com DDD'',
      priority = 1, requires_validation = False, pc_min_confidence = 0.85\<rparr>,
     \<lparr>pattern = Listed ''PHONE_PATTERNS'' 1, pii_type = CELULAR,
      description = u ''Celular com DDI opcional'',
      priority = 1, requires_validation = False, pc_min_confidence = 0.9\<rparr>,
     \<lparr>pattern = Listed ''PHONE_PATTERNS'' 2, pii_type = TELEFONE,
      description = u ''Telefone fixo'',
      priority = 1, requires_validation = False, pc_min_confidence = 0.85\<rparr>,
     \<lparr>pattern = Listed ''PHONE_PATTERNS'' 3, pii_type = TELEFONE,
      description = u ''Telefone sem DDD'',
      priority = 3, requires_validation = False, pc_min_confidence = 0.6\<rparr>,
     \<lparr>pattern = Listed ''PHONE_PATTERNS'' 4, pii_type = TELEFONE,
      description = u ''Telefone formato internacional'',
      priority = 1, requires_validation = False, pc_min_confidence = 0.95\<rparr>]"

definition EMAIL_PATTERNS :: "PatternConfig list" where
  "EMAIL_PATTERNS =
    [\<lparr>pattern = Listed ''EMAIL_PATTERNS'' 0, pii_type = EMAIL,
      description = u ''Email padr'' @ [0xE3] @ u ''o'',
      priority = 1, requires_validation = False, pc_min_confidence = 0.95\<rparr>,
     \<lparr>pattern = Listed ''EMAIL_PATTERNS'' 1, pii_type = EMAIL,
      description = u ''Email com espa'' @ [0xE7] @ u ''os'',
      priority = 2, requires_validation = False, pc_min_confidence = 0.8\<rparr>,
     \<lparr>pattern = Listed ''EMAIL_PATTERNS'' 2, pii_type = EMAIL,
      description = u ''Email ofuscado com [@]'',
      priority = 2, requires_validation = False, pc_min_confidence = 0.85\<rparr>]"

definition CEP_PATTERNS :: "PatternConfig list" where
  "CEP_PATTERNS =
    [\<lparr>pattern = Listed ''CEP_PATTERNS'' 0, pii_type = CEP,
      description = u ''CEP padr'' @ [0xE3] @ u ''o'',
      priority = 1, requires_validation = False, pc_min_confidence = 0.85\<rparr>,
     \<lparr>pattern = Listed ''CEP_PATTERNS'' 1, pii_type = CEP,
      description = u ''CEP com ponto no meio'',
      priority = 2, requires_validation = False, pc_min_confidence = 0.75\<rparr>]"

definition RG_PATTERNS :: "PatternConfig list" where
  "RG_PATTERNS =
    [\<lparr>pattern = Listed ''RG_PATTERNS'' 0, pii_type = RG,
      description = u ''RG padr'' @ [0xE3] @ u ''o'',
      priority = 2, requires_validation = False, pc_min_confidence = 0.7\<rparr>,
     \<lparr>pattern = Listed ''RG_PATTERNS'' 1, pii_type = RG,
      description = u ''RG com UF'',
      priority = 1, requires_validation = False, pc_min_confidence = 0.8\<rparr>]"

definition CNH_PATTERNS :: "PatternConfig list" where
  "CNH_PATTERNS =
    [\<lparr>pattern = Listed ''CNH_PATTERNS'' 0, pii_type = CNH,
      description = u ''CNH (11 d'' @ [0xED] @ u ''gitos)'',
      priority = 3, requires_validation = False, pc_min_confidence = 0.5\<rparr>,
     \<lparr>pattern = Listed ''CNH_PATTERNS'' 1, pii_type = CNH,
      description = u ''CNH formatada'',
      priority = 2, requires_validation = False, pc_min_confidence = 0.6\<rparr>]"

definition TITULO_ELEITOR_PATTERNS :: "PatternConfig list" where
  "TITULO_ELEITOR_PATTERNS =
    [\<lparr>pattern = Listed ''TITULO_ELEITOR_PATTERNS'' 0, pii_type = TITULO_ELEITOR,
      description = u ''T'' @ [0xED] @ u ''tulo de eleitor (12 d'' @ [0xED] @ u ''gitos)'',
      priority = 2, requires_validation = False, pc_min_confidence = 0.6\<rparr>]"

definition PIS_PASEP_PATTERNS :: "PatternConfig list" where
  "PIS_PASEP_PATTERNS =
    [\<lparr>pattern = Listed ''PIS_PASEP_PATTERNS'' 0, pii_type = PIS_PASEP,
      description = u ''PIS/PASEP'',
      priority = 2, requires_validation = False, pc_min_confidence = 0.7\<rparr>]"

definition CARTAO_CREDITO_PATTERNS :: "PatternConfig list" where
  "CARTAO_CREDITO_PATTERNS =
    [\<lparr>pattern = Listed ''CARTAO_CREDITO_PATTERNS'' 0, pii_type = CARTAO_CREDITO,
      description = u ''Cart'' @ [0xE3] @ u ''o de cr'' @ [0xE9] @ u ''dito (Visa, Master, Amex)'',
      priority = 1, requires_validation = False, pc_min_confidence = 0.9\<rparr>]"

definition DATA_NASCIMENTO_PATTERNS :: "PatternConfig list" where
  "DATA_NASCIMENTO_PATTERNS =
    [\<lparr>pattern = Listed ''DATA_NASCIMENTO_PATTERNS'' 0, pii_type = DATA_NASCIMENTO,
      description = u ''Data DD/MM/AAAA'',
      priority = 2, requires_validation = False, pc_min_confidence = 0.7\<rparr>,
     \<lparr>pattern = Listed ''DATA_NASCIMENTO_PATTERNS'' 1, pii_type = DATA_NASCIMENTO,
      description = u ''Data AAAA-MM-DD'',
      priority = 2, requires_validation = False, pc_min_confidence = 0.7\<rparr>]"

definition PLACA_VEICULO_PATTERNS :: "PatternConfig list" where
  "PLACA_VEICULO_PATTERNS =
    [\<lparr>pattern = Listed ''PLACA_VEICULO_PATTERNS'' 0, pii_type = PLACA_VEICULO,
      description = u ''Placa antiga AAA-1234'',
      priority = 1, requires_validation = False, pc_min_confidence = 0.85\<rparr>,
     \<lparr>pattern = Listed ''PLACA_VEICULO_PATTERNS'' 1, pii_type = PLACA_VEICULO,
      description = u ''Placa Mercosul AAA1A23'',
      priority = 1, requires_validation = False, pc_min_confidence = 0.9\<rparr>]"

definition PASSAPORTE_PATTERNS :: "PatternConfig list" where
  "PASSAPORTE_PATTERNS =
    [\<lparr>pattern = Listed ''PASSAPORTE_PATTERNS'' 0, pii_type = PASSAPORTE,
      description = u ''Passaporte brasileiro'',
      priority = 2, requires_validation = False, pc_min_confidence = 0.7\<rparr>]"


text \<open>
  \<open>_compiled_patterns\<close>: a dict from type to the configurations of that type, in
  insertion order. \<open>PHONE_PATTERNS\<close> holds two types, so the order of the dict is not
  the order of the lists.
\<close>

definition all_pattern_lists :: "PatternConfig list list" where
  "all_pattern_lists =
    [CPF_PATTERNS, CNPJ_PATTERNS, PHONE_PATTERNS, EMAIL_PATTERNS, CEP_PATTERNS,
     RG_PATTERNS, CNH_PATTERNS, TITULO_ELEITOR_PATTERNS, PIS_PASEP_PATTERNS,
     CARTAO_CREDITO_PATTERNS, DATA_NASCIMENTO_PATTERNS, PLACA_VEICULO_PATTERNS,
     PASSAPORTE_PATTERNS]"

definition add_compiled ::
  "(PIIType \<times> PatternConfig list) list \<Rightarrow> PatternConfig
     \<Rightarrow> (PIIType \<times> PatternConfig list) list" where
  "add_compiled d config =
     (if pii_type config \<in> set (map fst d)
      then map (\<lambda>(k, v). if k = pii_type config then (k, v @ [config]) else (k, v)) d
      else d @ [(pii_type config, [config])])"

definition compile_all_patterns :: "(PIIType \<times> PatternConfig list) list" where
  "compile_all_patterns = foldl add_compiled [] (concat all_pattern_lists)"

text \<open>The dicts that \<open>find_all\<close> builds.\<close>

record Match =
  m_type :: string
  m_value :: ustring
  m_start :: int
  m_end :: int
  m_confidence :: real
  m_description :: ustring
  m_requires_validation :: bool
  m_priority :: nat

definition Match_has_overlap :: "Match \<Rightarrow> Match \<Rightarrow> bool" where
  "Match_has_overlap match1 match2 =
     (\<not> (m_end match1 \<le> m_start match2 \<or> m_end match2 \<le> m_start match1))"

fun dedup_loop :: "Match list \<Rightarrow> Match list \<Rightarrow> Match list" where
  "dedup_loop result [] = result"
| "dedup_loop result (m # ms) =
     dedup_loop (if list_ex (\<lambda>existing. Match_has_overlap m existing) result
                 then result else result @ [m]) ms"

definition deduplicate_matches :: "Match list \<Rightarrow> Match list" where
  "deduplicate_matches matches =
     (if matches = [] then matches
      else dedup_loop [] (sort_key (\<lambda>x. (m_start x, - m_confidence x)) matches))"

definition pattern_matches :: "re_engine \<Rightarrow> ustring \<Rightarrow> PIIType \<Rightarrow> PatternConfig \<Rightarrow> Match list" where
  "pattern_matches re text ty config =
     map (\<lambda>m. \<lparr>m_type = PIIType_value ty,
                m_value = group text (span0 m),
                m_start = fst (span0 m),
                m_end = snd (span0 m),
                m_confidence = pc_min_confidence config,
                m_description = description config,
                m_requires_validation = requires_validation config,
                m_priority = priority config\<rparr>)
         (re (pattern config) text)"

definition all_matches :: "re_engine \<Rightarrow> ustring \<Rightarrow> Match list" where
  "all_matches re text =
     concat (map (\<lambda>(ty, patterns). concat (map (pattern_matches re text ty) patterns))
                 compile_all_patterns)"

definition find_all :: "re_engine \<Rightarrow> ustring \<Rightarrow> Match list" where
  "find_all re text = deduplicate_matches (all_matches re text)"

subsection \<open>ContextualPatterns\<close>

definition CPF_CONTEXTUAL :: "(regex \<times> real) list" where
  "CPF_CONTEXTUAL =
    [(Listed ''CPF_CONTEXTUAL'' 0, 0.92),
     (Listed ''CPF_CONTEXTUAL'' 1, 0.9),
     (Listed ''CPF_CONTEXTUAL'' 2, 0.88),
     (Listed ''CPF_CONTEXTUAL'' 3, 0.93)]"

definition PHONE_CONTEXTUAL :: "(regex \<times> real) list" where
  "PHONE_CONTEXTUAL =
    [(Listed ''PHONE_CONTEXTUAL'' 0, 0.9),
     (Listed ''PHONE_CONTEXTUAL'' 1, 0.85),
     (Listed ''PHONE_CONTEXTUAL'' 2, 0.75)]"

definition EMAIL_CONTEXTUAL :: "(regex \<times> real) list" where
  "EMAIL_CONTEXTUAL =
    [(Listed ''EMAIL_CONTEXTUAL'' 0, 0.95),
     (Listed ''EMAIL_CONTEXTUAL'' 1, 0.9)]"

definition ADDRESS_CONTEXTUAL :: "(regex \<times> real) list" where
  "ADDRESS_CONTEXTUAL =
    [(Listed ''ADDRESS_CONTEXTUAL'' 0, 0.85),
     (Listed ''ADDRESS_CONTEXTUAL'' 1, 0.8)]"

definition NAME_CONTEXTUAL :: "(regex \<times> real) list" where
  "NAME_CONTEXTUAL =
    [(Listed ''NAME_CONTEXTUAL'' 0, 0.85),
     (Listed ''NAME_CONTEXTUAL'' 1, 0.8),
     (Listed ''NAME_CONTEXTUAL'' 2, 0.75)]"

definition pattern_groups :: "(string \<times> (regex \<times> real) list) list" where
  "pattern_groups =
    [(''CPF'', CPF_CONTEXTUAL), (''TELEFONE'', PHONE_CONTEXTUAL), (''EMAIL'', EMAIL_CONTEXTUAL),
     (''ENDERECO'', ADDRESS_CONTEXTUAL), (''NOME'', NAME_CONTEXTUAL)]"

record ContextMatch =
  c_type :: string
  c_value :: ustring
  c_start :: int
  c_end :: int
  c_confidence :: real
  c_full_context :: ustring

text \<open>
  Every contextual expression has a group, so \<open>match.groups()\<close> is never empty and the
  value and the span are those of group 1.
\<close>

definition find_contextual :: "re_engine \<Rightarrow> ustring \<Rightarrow> ContextMatch list" where
  "find_contextual re text =
     concat (map (\<lambda>(ty, patterns).
        concat (map (\<lambda>(compiled_pattern, conf).
          map (\<lambda>m. \<lparr>c_type = ty @ ''_CONTEXTUAL'',
                     c_value = strip (group text (span1 m)),
                     c_start = fst (span1 m),
                     c_end = snd (span1 m),
                     c_confidence = conf,
                     c_full_context = group text (span0 m)\<rparr>)
              (re compiled_pattern text)) patterns)) pattern_groups)"

section \<open>detector.py\<close>

datatype DetectionMode = STRICT | BALANCED | PRECISE

fun DetectionMode_value :: "DetectionMode \<Rightarrow> string" where
  "DetectionMode_value STRICT = ''strict''"
| "DetectionMode_value BALANCED = ''balanced''"
| "DetectionMode_value PRECISE = ''precise''"

record DetectionConfig =
  mode :: DetectionMode
  use_bert :: bool
  use_contextual :: bool
  validate_documents :: bool
  min_confidence :: real
  thresholds :: "string \<rightharpoonup> real"

text \<open>\<open>DetectionConfig(mode=mode)\<close>: every other field at its default.\<close>

definition default_config :: "DetectionMode \<Rightarrow> DetectionConfig" where
  "default_config md =
     \<lparr>mode = md, use_bert = True, use_contextual = True, validate_documents = True,
      min_confidence = 0.5,
      thresholds = map_of
        [(''CPF'', 0.3), (''CNPJ'', 0.4), (''TELEFONE'', 0.4), (''CELULAR'', 0.4),
         (''EMAIL'', 0.7), (''CEP'', 0.5), (''NOME'', 0.6), (''RG'', 0.5),
         (''DATA_NASCIMENTO'', 0.6), (''DEFAULT'', 0.5)]\<rparr>"

definition get_config_for_mode :: "DetectionMode \<Rightarrow> DetectionConfig" where
  "get_config_for_mode md =
     (if md = STRICT then
        (default_config md)
          \<lparr>min_confidence := 0.3,
           thresholds := map_of
             [(''CPF'', 0.2), (''CNPJ'', 0.3), (''TELEFONE'', 0.3), (''CELULAR'', 0.3),
              (''EMAIL'', 0.5), (''CEP'', 0.4), (''NOME'', 0.4), (''DEFAULT'', 0.3)]\<rparr>
      else if md = PRECISE then
        (default_config md)
          \<lparr>min_confidence := 0.7,
           thresholds := map_of
             [(''CPF'', 0.7), (''CNPJ'', 0.7), (''TELEFONE'', 0.7), (''CELULAR'', 0.7),
              (''EMAIL'', 0.8), (''CEP'', 0.7), (''NOME'', 0.8), (''DEFAULT'', 0.7)]\<rparr>
      else default_config md)"

record Entity =
  e_type :: string
  e_value :: ustring
  e_start :: int
  e_end :: int
  e_confidence :: real
  validation_status :: string
  validation_message :: ustring
  detection_method :: string
  explanation :: ustring

text \<open>
  What \<open>Entity(...)\<close> builds from the five positional fields, the method and the
  explanation: the validation fields start at their defaults.
\<close>

definition new_Entity ::
  "string \<Rightarrow> ustring \<Rightarrow> int \<Rightarrow> int \<Rightarrow> real \<Rightarrow> string \<Rightarrow> ustring \<Rightarrow> Entity" where
  "new_Entity ty v s e c meth expl =
     \<lparr>e_type = ty, e_value = v, e_start = s, e_end = e, e_confidence = c,
      validation_status = ''not_validated'', validation_message = [],
      detection_method = meth, explanation = expl\<rparr>"

definition BRAZILIAN_NAMES :: "ustring list" where
  "BRAZILIAN_NAMES =
    [u ''silva'', u ''santos'', u ''oliveira'', u ''souza'', u ''rodrigues'',
     u ''ferreira'', u ''alves'', u ''pereira'', u ''lima'', u ''gomes'', u ''costa'',
     u ''ribeiro'', u ''martins'', u ''carvalho'', u ''almeida'', u ''lopes'',
     u ''soares'', u ''fernandes'', u ''vieira'', u ''barbosa'', u ''rocha'',
     u ''dias'', u ''nascimento'', u ''andrade'', u ''moreira'', u ''nunes'',
     u ''marques'', u ''machado'', u ''mendes'', u ''freitas'', u ''cardoso'',
     u ''ramos'', u ''gon'' @ [0xE7] @ u ''alves'', u ''santana'', u ''teixeira'',
     u ''moura'', u ''ara'' @ [0xFA] @ u ''jo'', u ''maria'', u ''jos'' @ [0xE9],
     u ''ana'', u ''jo'' @ [0xE3] @ u ''o'', u ''paulo'', u ''carlos'', u ''antonio'',
     u ''francisco'', u ''pedro'', u ''lucas'', u ''luiz'', u ''marcos'',
     u ''gabriel'', u ''rafael'', u ''daniel'', u ''fernanda'', u ''juliana'',
     u ''camila'', u ''amanda'', u ''patricia'', u ''aline'', u ''bruna'',
     u ''jessica'', u ''leticia'', u ''larissa'']"

text \<open>
  The external model. \<open>_bert_contextual_detection\<close> runs a tokenizer and a neural network
  that are not part of this program. For a text they give, token by token, the label id
  that the network predicts (\<open>predictions\<close>) and the character offsets of the token in the
  text (\<open>offset_mapping\<close>); the configuration of the network names the label ids
  (\<open>id2label\<close>). A call that raises is \<open>None\<close>: the function catches every exception and
  returns the entities built so far, none at that point. The tokenizer is loaded before
  the network, so a detector with a network has its tokenizer.
\<close>

record BertModel =
  bert_run :: "ustring \<Rightarrow> (nat \<times> nat \<times> nat) list option"
  id2label :: "nat \<rightharpoonup> ustring"

text \<open>\<open>sub in s\<close>\<close>

fun contains :: "ustring \<Rightarrow> ustring \<Rightarrow> bool" where
  "contains [] sub = (sub = [])"
| "contains (c # cs) sub = (startswith (c # cs) sub \<or> contains cs sub)"

definition bert_entity_type :: "ustring \<Rightarrow> string option" where
  "bert_entity_type label =
     (if contains label (u ''PER'') \<or> contains label (u ''PERSON'') then Some ''NOME_PESSOA''
      else if contains label (u ''LOC'') \<or> contains label (u ''GPE'') then Some ''ENDERECO''
      else if contains label (u ''ORG'') then Some ''ORGANIZACAO''
      else None)"

definition bert_entity :: "string \<Rightarrow> ustring \<Rightarrow> int \<Rightarrow> int \<Rightarrow> Entity" where
  "bert_entity ty v s e =
     new_Entity ty v s e 0.75 ''bert''
       (u ''Entidade detectada por an'' @ [0xE1] @ u ''lise contextual BERT'')"

text \<open>
  The loop over the tokens. \<open>current_entity\<close>, \<open>current_start\<close> and \<open>current_type\<close> are
  assigned together and reset together, so they are one optional triple here. An open
  entity is closed by the next token that starts another entity, and by the next token
  that is no entity token (label id 0, or empty offsets); its end is the first offset of
  the closing token. An entity still open after the last token is dropped.
\<close>

fun bert_loop ::
  "ustring \<Rightarrow> (nat \<rightharpoonup> ustring) \<Rightarrow> Entity list \<Rightarrow> (ustring \<times> nat \<times> string) option
     \<Rightarrow> (nat \<times> nat \<times> nat) list \<Rightarrow> Entity list" where
  "bert_loop text labels entities current [] = entities"
| "bert_loop text labels entities current ((pred, a, b) # rest) =
     (if pred \<noteq> 0 \<and> a \<noteq> b then
        (let label = (case labels pred of None \<Rightarrow> u ''O'' | Some l \<Rightarrow> l) in
         (case bert_entity_type label of
            None \<Rightarrow> bert_loop text labels entities current rest
          | Some entity_type \<Rightarrow>
              (case current of
                 None \<Rightarrow>
                   bert_loop text labels entities
                     (Some (slice text (int a) (int b), a, entity_type)) rest
               | Some (v, s, ty) \<Rightarrow>
                   (if startswith label (u ''B-'') \<or> ty \<noteq> entity_type
                    then bert_loop text labels
                           (if v \<noteq> [] then entities @ [bert_entity ty v (int s) (int a)]
                            else entities)
                           (Some (slice text (int a) (int b), a, entity_type)) rest
                    else bert_loop text labels entities
                           (Some (v @ slice text (int a) (int b), s, ty)) rest))))
      else
        (case current of
           None \<Rightarrow> bert_loop text labels entities None rest
         | Some (v, s, ty) \<Rightarrow>
             (if v \<noteq> []
              then bert_loop text labels (entities @ [bert_entity ty (strip v) (int s) (int a)])
                     None rest
              else bert_loop text labels entities current rest)))"

text \<open>The detector: its configuration and the external model, when one was loaded.\<close>

record PIIGuardian =
  config :: DetectionConfig
  bert_model :: "BertModel option"

definition bert_contextual_detection :: "PIIGuardian \<Rightarrow> ustring \<Rightarrow> Entity list" where
  "bert_contextual_detection self text =
     (case bert_model self of
        None \<Rightarrow> []
      | Some model \<Rightarrow>
          (case bert_run model text of
             None \<Rightarrow> []
           | Some tokens \<Rightarrow> bert_loop text (id2label model) [] None tokens))"

definition validators :: "string \<rightharpoonup> (ustring \<Rightarrow> py_error + ValidationResult)" where
  "validators = map_of
     [(''CPF'', CPFValidator_validate), (''CNPJ'', CNPJValidator_validate),
      (''TELEFONE'', PhoneValidator_validate), (''CELULAR'', PhoneValidator_validate),
      (''EMAIL'', EmailValidator_validate), (''CEP'', CEPValidator_validate)]"

definition has_overlap :: "Entity \<Rightarrow> Entity \<Rightarrow> bool" where
  "has_overlap entity1 entity2 =
     (\<not> (e_end entity1 \<le> e_start entity2 \<or> e_end entity2 \<le> e_start entity1))"

definition has_overlap_dict :: "ContextMatch \<Rightarrow> Entity \<Rightarrow> bool" where
  "has_overlap_dict match entity =
     (\<not> (c_end match \<le> e_start entity \<or> e_end entity \<le> c_start match))"

text \<open>\<open>sum(c.isdigit() for c in value)\<close>\<close>

definition count_digits :: "ustring \<Rightarrow> nat" where
  "count_digits v = length (filter isdigit_char v)"

subsection \<open>Stage 1: \<open>_regex_detection_aggressive\<close>\<close>

definition entity_of_match :: "Match \<Rightarrow> Entity" where
  "entity_of_match match =
     new_Entity (m_type match) (m_value match) (m_start match) (m_end match)
       (m_confidence match) ''regex'' (m_description match)"

definition cpf_aggressive_entity :: "ustring \<Rightarrow> re_match \<Rightarrow> Entity" where
  "cpf_aggressive_entity text m =
     new_Entity ''CPF'' (group text (span0 m)) (fst (span0 m)) (snd (span0 m)) 0.7
       ''regex_aggressive'' (u ''Padr'' @ [0xE3] @ u ''o agressivo de CPF detectado'')"

fun cpf_aggressive_loop :: "ustring \<Rightarrow> Entity list \<Rightarrow> re_match list \<Rightarrow> Entity list" where
  "cpf_aggressive_loop text entities [] = entities"
| "cpf_aggressive_loop text entities (m # ms) =
     (let v = group text (span0 m) in
      cpf_aggressive_loop text
        (if \<not> list_ex (\<lambda>e. e_value e = v) entities
            \<and> 9 \<le> count_digits v \<and> count_digits v \<le> 11
         then entities @ [cpf_aggressive_entity text m] else entities) ms)"

definition phone_aggressive_entity :: "ustring \<Rightarrow> re_match \<Rightarrow> Entity" where
  "phone_aggressive_entity text m =
     new_Entity ''TELEFONE'' (group text (span0 m)) (fst (span0 m)) (snd (span0 m)) 0.75
       ''regex_aggressive'' (u ''Padr'' @ [0xE3] @ u ''o agressivo de telefone detectado'')"

fun phone_aggressive_loop :: "ustring \<Rightarrow> Entity list \<Rightarrow> re_match list \<Rightarrow> Entity list" where
  "phone_aggressive_loop text entities [] = entities"
| "phone_aggressive_loop text entities (m # ms) =
     (let v = group text (span0 m) in
      phone_aggressive_loop text
        (if \<not> list_ex (\<lambda>e. e_value e = v) entities
            \<and> 8 \<le> count_digits v \<and> count_digits v \<le> 11
         then entities @ [phone_aggressive_entity text m] else entities) ms)"

definition regex_detection_aggressive :: "re_engine \<Rightarrow> ustring \<Rightarrow> Entity list" where
  "regex_detection_aggressive re text =
     (let entities = map entity_of_match (find_all re text);
          entities = cpf_aggressive_loop text entities (re (Inline ''cpf_aggressive'') text)
      in phone_aggressive_loop text entities (re (Inline ''phone_aggressive'') text))"

subsection \<open>Stage 3: \<open>_merge_detections\<close>\<close>

text \<open>
  The inner loop over \<open>regex_matches\<close>, which stops at the first entity that overlaps the
  model's hit and raises that entity's confidence when the hit's is larger. \<open>merged\<close>
  holds the same objects as \<open>regex_matches\<close>, each built once by stage 1, so the update
  shows in \<open>merged\<close>; the model keeps the updated list.
\<close>

fun update_first_overlap :: "Entity \<Rightarrow> Entity list \<Rightarrow> Entity list" where
  "update_first_overlap bert [] = []"
| "update_first_overlap bert (reg # regs) =
     (if has_overlap bert reg then
        (if e_confidence bert > e_confidence reg
         then reg\<lparr>e_confidence := e_confidence bert, detection_method := ''hybrid''\<rparr>
         else reg) # regs
      else reg # update_first_overlap bert regs)"

fun merge_loop :: "Entity list \<Rightarrow> Entity list \<Rightarrow> Entity list \<Rightarrow> Entity list \<times> Entity list" where
  "merge_loop regex_matches appended [] = (regex_matches, appended)"
| "merge_loop regex_matches appended (bert # berts) =
     (if list_ex (\<lambda>reg. has_overlap bert reg) regex_matches
      then merge_loop (update_first_overlap bert regex_matches) appended berts
      else merge_loop regex_matches (appended @ [bert]) berts)"

definition merge_detections :: "Entity list \<Rightarrow> Entity list \<Rightarrow> Entity list" where
  "merge_detections regex_matches bert_matches =
     (case merge_loop regex_matches [] bert_matches of
        (regs, appended) \<Rightarrow> regs @ appended)"

subsection \<open>Stage 4: \<open>_anti_false_negative_filter\<close>\<close>

text \<open>\<open>str.split()\<close>: the words between runs of white space.\<close>

fun split_acc :: "ustring \<Rightarrow> ustring \<Rightarrow> ustring list" where
  "split_acc w [] = (if w = [] then [] else [w])"
| "split_acc w (c # cs) =
     (if isspace_char c then (if w = [] then [] else [w]) @ split_acc [] cs
      else split_acc (w @ [c]) cs)"

definition split :: "ustring \<Rightarrow> ustring list" where
  "split s = split_acc [] s"

definition contextual_entity :: "ContextMatch \<Rightarrow> Entity" where
  "contextual_entity match =
     new_Entity (c_type match) (c_value match) (c_start match) (c_end match)
       (c_confidence match) ''contextual''
       (u ''Detectado por contexto: '' @ [0x27] @ take 50 (c_full_context match)
          @ u ''...'' @ [0x27])"

fun contextual_loop :: "Entity list \<Rightarrow> ContextMatch list \<Rightarrow> Entity list" where
  "contextual_loop entities [] = entities"
| "contextual_loop entities (match # rest) =
     (let is_duplicate =
            list_ex (\<lambda>e. e_value e = c_value match \<or> has_overlap_dict match e) entities
      in contextual_loop
           (if \<not> is_duplicate \<and> strip (c_value match) \<noteq> []
            then entities @ [contextual_entity match] else entities) rest)"

definition number_entity :: "ustring \<Rightarrow> re_match \<Rightarrow> Entity" where
  "number_entity text m =
     new_Entity ''TELEFONE_CONTEXTUAL'' (group text (span2 m)) (fst (span2 m)) (snd (span2 m))
       0.88 ''anti_fn'' (u ''Contexto expl'' @ [0xED] @ u ''cito de telefone detectado'')"

fun number_loop :: "ustring \<Rightarrow> Entity list \<Rightarrow> re_match list \<Rightarrow> Entity list" where
  "number_loop text entities [] = entities"
| "number_loop text entities (m # ms) =
     number_loop text
       (if \<not> list_ex (\<lambda>e. e_value e = group text (span2 m)) entities
        then entities @ [number_entity text m] else entities) ms"

definition cpf_context_entity :: "ustring \<Rightarrow> re_match \<Rightarrow> Entity" where
  "cpf_context_entity text m =
     new_Entity ''CPF_CONTEXTUAL'' (strip (group text (span2 m))) (fst (span2 m))
       (snd (span2 m)) 0.85 ''anti_fn''
       (u ''Men'' @ [0xE7] @ [0xE3] @ u ''o expl'' @ [0xED] @ u ''cita de CPF no contexto'')"

fun cpf_context_loop :: "ustring \<Rightarrow> Entity list \<Rightarrow> re_match list \<Rightarrow> Entity list" where
  "cpf_context_loop text entities [] = entities"
| "cpf_context_loop text entities (m # ms) =
     (let v = strip (group text (span2 m)) in
      cpf_context_loop text
        (if 9 \<le> count_digits v \<and> \<not> list_ex (\<lambda>e. e_value e = v) entities
         then entities @ [cpf_context_entity text m] else entities) ms)"

definition name_entity :: "ustring \<Rightarrow> re_match \<Rightarrow> Entity" where
  "name_entity text m =
     new_Entity ''NOME_PESSOA'' (group text (span2 m)) (fst (span2 m)) (snd (span2 m))
       0.75 ''anti_fn''
       (u ''Nome detectado ap'' @ [0xF3] @ u ''s palavra-chave de tratamento'')"

fun name_loop :: "ustring \<Rightarrow> Entity list \<Rightarrow> re_match list \<Rightarrow> Entity list" where
  "name_loop text entities [] = entities"
| "name_loop text entities (m # ms) =
     (let v = group text (span2 m);
          ws = split (lower v);
          has_common_name = list_ex (\<lambda>w. w \<in> set BRAZILIAN_NAMES) ws
      in name_loop text
           (if \<not> list_ex (\<lambda>e. e_value e = v) entities
               \<and> (has_common_name \<or> 2 \<le> length ws)
            then entities @ [name_entity text m] else entities) ms)"

definition anti_false_negative_filter ::
  "re_engine \<Rightarrow> Entity list \<Rightarrow> ustring \<Rightarrow> Entity list" where
  "anti_false_negative_filter re entities text =
     (let entities = contextual_loop entities (find_contextual re text);
          entities = number_loop text entities (re (Inline ''number_pattern'') text);
          entities = cpf_context_loop text entities (re (Inline ''cpf_context'') text)
      in name_loop text entities (re (Inline ''name_keywords'') text))"

subsection \<open>Stage 5: \<open>_validate_consistency\<close>\<close>

text \<open>\<open>entity.type.replace('_CONTEXTUAL', '')\<close>\<close>

definition base_type_of :: "string \<Rightarrow> string" where
  "base_type_of ty = remove_all ''_CONTEXTUAL'' ty"

text \<open>
  One turn of the loop: the entity that is appended to \<open>validated_entities\<close>, or
  \<open>None\<close> when none is.
\<close>

definition validate_entity :: "DetectionMode \<Rightarrow> Entity \<Rightarrow> py_error + Entity option" where
  "validate_entity md entity =
     (let base_type = base_type_of (e_type entity) in
      case validators base_type of
        None \<Rightarrow> Inr (Some (entity\<lparr>validation_status := ''not_applicable''\<rparr>))
      | Some validator \<Rightarrow>
          (case validator (e_value entity) of
             Inl err \<Rightarrow> Inl err
           | Inr result \<Rightarrow>
               (let entity = entity
                      \<lparr>validation_status := (if is_valid result then ''valid'' else ''invalid''),
                       validation_message := message result\<rparr>
                in if is_valid result then
                     Inr (Some (entity
                       \<lparr>e_confidence := max (e_confidence entity) (confidence result),
                        explanation := explanation entity @ u '' | Valida'' @ [0xE7] @ [0xE3]
                                         @ u ''o: '' @ message result\<rparr>))
                   else if base_type \<in> set [''CPF'', ''CNPJ''] then
                     (if md = STRICT then
                        Inr (Some (entity
                          \<lparr>e_confidence := e_confidence entity * 0.5,
                           explanation := explanation entity @ u '' | AVISO: ''
                                            @ message result\<rparr>))
                      else Inr None)
                   else Inr (Some entity))))"

fun validate_consistency :: "DetectionMode \<Rightarrow> Entity list \<Rightarrow> py_error + Entity list" where
  "validate_consistency md [] = Inr []"
| "validate_consistency md (entity # rest) =
     (case validate_entity md entity of
        Inl err \<Rightarrow> Inl err
      | Inr kept \<Rightarrow>
          (case validate_consistency md rest of
             Inl err \<Rightarrow> Inl err
           | Inr validated \<Rightarrow>
               Inr ((case kept of None \<Rightarrow> [] | Some e \<Rightarrow> [e]) @ validated)))"

subsection \<open>Stage 6: \<open>_apply_thresholds\<close>\<close>

text \<open>\<open>thresholds.get(base_type, thresholds.get('DEFAULT', 0.5))\<close>\<close>

definition threshold_for :: "(string \<rightharpoonup> real) \<Rightarrow> string \<Rightarrow> real" where
  "threshold_for th base_type =
     (case th base_type of
        Some t \<Rightarrow> t
      | None \<Rightarrow> (case th ''DEFAULT'' of Some d \<Rightarrow> d | None \<Rightarrow> 0.5))"

definition apply_thresholds :: "(string \<rightharpoonup> real) \<Rightarrow> Entity list \<Rightarrow> Entity list" where
  "apply_thresholds th entities =
     filter (\<lambda>entity. e_confidence entity \<ge> threshold_for th (base_type_of (e_type entity)))
            entities"

subsection \<open>\<open>detect\<close>\<close>

text \<open>
  The result, without the wall-clock \<open>processing_time_ms\<close>. The early return for an
  empty text leaves \<open>mode\<close> and \<open>bert_enabled\<close> out of the metadata.
\<close>

record Summary =
  total_entities :: nat
  by_type :: "(string \<times> nat) list"

record Metadata =
  text_length :: nat
  md_mode :: "string option"
  bert_enabled :: "bool option"

record DetectionResult =
  has_pii :: bool
  entities :: "Entity list"
  summary :: Summary
  metadata :: Metadata

text \<open>\<open>by_type[k] = by_type.get(k, 0) + 1\<close> on a dict kept in insertion order.\<close>

definition bump :: "(string \<times> nat) list \<Rightarrow> string \<Rightarrow> (string \<times> nat) list" where
  "bump d k =
     (if k \<in> set (map fst d) then map (\<lambda>(k', n). if k' = k then (k', n + 1) else (k', n)) d
      else d @ [(k, 1)])"

definition count_by_type :: "Entity list \<Rightarrow> (string \<times> nat) list" where
  "count_by_type es = foldl (\<lambda>d entity. bump d (base_type_of (e_type entity))) [] es"

text \<open>The stages before validation, which cannot raise.\<close>

definition merged_entities :: "re_engine \<Rightarrow> PIIGuardian \<Rightarrow> ustring \<Rightarrow> Entity list" where
  "merged_entities re self text =
     (let regex_matches = regex_detection_aggressive re text;
          bert_matches = (if use_bert (config self) \<and> bert_model self \<noteq> None
                          then bert_contextual_detection self text else [])
      in merge_detections regex_matches bert_matches)"

definition detect :: "re_engine \<Rightarrow> PIIGuardian \<Rightarrow> ustring \<Rightarrow> py_error + DetectionResult" where
  "detect re self text =
     (if text = [] \<or> strip text = [] then
        Inr \<lparr>has_pii = False, entities = [],
             summary = \<lparr>total_entities = 0, by_type = []\<rparr>,
             metadata = \<lparr>text_length = 0, md_mode = None, bert_enabled = None\<rparr>\<rparr>
      else
        (let merged = merged_entities re self text;
             merged = (if use_contextual (config self)
                       then anti_false_negative_filter re merged text else merged)
         in case (if validate_documents (config self)
                  then validate_consistency (mode (config self)) merged
                  else Inr merged) of
              Inl err \<Rightarrow> Inl err
            | Inr validated \<Rightarrow>
                (let filtered = apply_thresholds (thresholds (config self)) validated in
                 Inr \<lparr>has_pii = (length filtered > 0), entities = filtered,
                      summary = \<lparr>total_entities = length filtered,
                                 by_type = count_by_type filtered\<rparr>,
                      metadata = \<lparr>text_length = length text,
                                  md_mode = Some (DetectionMode_value (mode (config self))),
                                  bert_enabled = Some (bert_model self \<noteq> None)\<rparr>\<rparr>)))"

section \<open>Inputs of the examples\<close>

text \<open>Two entities as they may enter the threshold stage.\<close>

definition threshold_example :: "Entity list" where
  "threshold_example =
     [new_Entity ''CPF'' (u ''123.456.789-00'') 5 19 0.45 ''regex'' [],
      new_Entity ''EMAIL_CONTEXTUAL'' (u ''a@b.com'') 27 34 0.95 ''contextual'' []]"

text \<open>Equality of two entities up to confidence and detection method.\<close>

definition same_but_confidence_method :: "Entity \<Rightarrow> Entity \<Rightarrow> bool" where
  "same_but_confidence_method e e' =
     (e'\<lparr>e_confidence := e_confidence e, detection_method := detection_method e\<rparr> = e)"

text \<open>What one turn of the validation loop keeps.\<close>

definition kept :: "DetectionMode \<Rightarrow> Entity \<Rightarrow> Entity list" where
  "kept md entity =
     (case validate_entity md entity of Inr (Some e) \<Rightarrow> [e] | _ \<Rightarrow> [])"

text \<open>
  Two pattern hits and three hits of the external model: the first model hit lies inside
  the second pattern hit and is more confident, the second lies inside the first pattern
  hit and is less confident, the third overlaps nothing.
\<close>

definition fusion_regex :: "Entity list" where
  "fusion_regex =
     [new_Entity ''CPF'' (u ''123.456.789-09'') 0 14 0.9 ''regex'' [],
      new_Entity ''EMAIL'' (u ''a@b.com'') 20 27 0.7 ''regex'' []]"

definition fusion_bert :: "Entity list" where
  "fusion_bert =
     [new_Entity ''NOME_PESSOA'' (u ''b.com'') 22 27 0.75 ''bert'' [],
      new_Entity ''ORGANIZACAO'' (u ''123'') 0 3 0.75 ''bert'' [],
      new_Entity ''NOME_PESSOA'' (u ''Ana'') 30 33 0.75 ''bert'' []]"

text \<open>An address that fits \<open>EMAIL_PATTERN\<close> and whose local part has 65 characters.\<close>

definition long_local_email :: ustring where
  "long_local_email = replicate 65 0x61 @ u ''@b.com''"

text \<open>Entities as they may enter the validation stage.\<close>

definition phone_without_ddd :: Entity where
  "phone_without_ddd =
     new_Entity ''TELEFONE'' (u ''99999-8888'') 8 18 0.6 ''regex'' (u ''Telefone sem DDD'')"

definition cpf_repeated :: Entity where
  "cpf_repeated =
     new_Entity ''CPF_CONTEXTUAL'' (u ''111.111.111-11'') 5 19 0.92 ''contextual'' []"

definition cpf_good :: Entity where
  "cpf_good = new_Entity ''CPF'' (u ''529.982.247-25'') 5 19 0.9 ''regex'' []"

definition person_name :: Entity where
  "person_name = new_Entity ''NOME_PESSOA'' (u ''Carlos Silva'') 4 16 0.75 ''anti_fn'' []"

text \<open>
  The text \<open>(61) 99999-8888\<close>, the entity that the catalogue gives for it (the first
  telephone expression matches all fifteen characters) and what \<open>phone_aggressive\<close>
  matches in it: the fourteen characters after the opening parenthesis.
\<close>

definition phone_text :: ustring where
  "phone_text = u ''(61) 99999-8888''"

definition phone_catalogue_entity :: Entity where
  "phone_catalogue_entity =
     new_Entity ''TELEFONE'' (u ''(61) 99999-8888'') 0 15 0.85 ''regex'' (u ''Telefone com DDD'')"

definition phone_aggressive_match :: re_match where
  "phone_aggressive_match = \<lparr>span0 = (1, 15), span1 = (-1, -1), span2 = (-1, -1)\<rparr>"

text \<open>
  What Python's \<open>re\<close> finds in \<open>(61) 99999-8888\<close>: three telephone expressions of the
  catalogue and \<open>phone_aggressive\<close> match, no other expression does. A group that an
  expression does not have is never read; its span is written \<open>(-1, -1)\<close>.
\<close>

definition whole_match :: "int \<Rightarrow> int \<Rightarrow> re_match" where
  "whole_match a b = \<lparr>span0 = (a, b), span1 = (-1, -1), span2 = (-1, -1)\<rparr>"

definition phone_text_engine :: re_engine where
  "phone_text_engine r t =
     (if t \<noteq> phone_text then []
      else if r = Listed ''PHONE_PATTERNS'' 0 then [whole_match 0 15]
      else if r = Listed ''PHONE_PATTERNS'' 1 then [whole_match 1 15]
      else if r = Listed ''PHONE_PATTERNS'' 3 then [whole_match 5 15]
      else if r = Inline ''phone_aggressive'' then [whole_match 1 15]
      else [])"

definition balanced_detector :: PIIGuardian where
  "balanced_detector = \<lparr>config = get_config_for_mode BALANCED, bert_model = None\<rparr>"

text \<open>
  The pairs of entities, one earlier in a list than the other, that some stage has tested
  for overlap: the later one was added from the contextual catalogue (tested against
  everything collected before it); or the later one is a hit of the external model and the
  earlier one is not (tested against the whole pattern stage); or both are catalogue
  hits that kept the method \<open>regex\<close> (deduplicated by \<open>find_all\<close>).
\<close>

definition checked_pair :: "Entity \<Rightarrow> Entity \<Rightarrow> bool" where
  "checked_pair x y =
     (detection_method y = ''contextual''
      \<or> (detection_method y = ''bert'' \<and> detection_method x \<noteq> ''bert'')
      \<or> (detection_method x = ''regex'' \<and> detection_method y = ''regex''))"

definition apart :: "Entity \<Rightarrow> Entity \<Rightarrow> bool" where
  "apart x y = (checked_pair x y \<longrightarrow> \<not> has_overlap x y)"

definition phone_stage1 :: "Entity list" where
  "phone_stage1 =
     [phone_catalogue_entity,
      new_Entity ''TELEFONE'' (u ''61) 99999-8888'') 1 15 0.75 ''regex_aggressive''
        (u ''Padr'' @ [0xE3] @ u ''o agressivo de telefone detectado'')]"

definition phone_final :: "Entity list" where
  "phone_final =
     [\<lparr>e_type = ''TELEFONE'', e_value = u ''(61) 99999-8888'', e_start = 0, e_end = 15,
       e_confidence = 0.9, validation_status = ''valid'',
       validation_message = phone_msg_valid (u ''celular'') 61,
       detection_method = ''regex'',
       explanation = u ''Telefone com DDD | Valida'' @ [0xE7, 0xE3] @ u ''o: ''
                       @ phone_msg_valid (u ''celular'') 61\<rparr>,
      \<lparr>e_type = ''TELEFONE'', e_value = u ''61) 99999-8888'', e_start = 1, e_end = 15,
       e_confidence = 0.9, validation_status = ''valid'',
       validation_message = phone_msg_valid (u ''celular'') 61,
       detection_method = ''regex_aggressive'',
       explanation = u ''Padr'' @ [0xE3] @ u ''o agressivo de telefone detectado | Valida''
                       @ [0xE7, 0xE3] @ u ''o: '' @ phone_msg_valid (u ''celular'') 61\<rparr>]"

text \<open>
  The text \<open>CPF: 123.456.789-09, Email: a@b.com\<close> and what Python's \<open>re\<close> finds in it:
  the first CPF expression, the first two e-mail expressions, the first contextual
  expression for each of the two, \<open>cpf_aggressive\<close> and \<open>cpf_context\<close> match once each.
\<close>

definition multi_text :: ustring where
  "multi_text = u ''CPF: 123.456.789-09, Email: a@b.com''"

definition multi_text_engine :: re_engine where
  "multi_text_engine r t =
     (if t \<noteq> multi_text then []
      else if r = Listed ''CPF_PATTERNS'' 0 then [whole_match 5 19]
      else if r = Listed ''EMAIL_PATTERNS'' 0 then [whole_match 28 35]
      else if r = Listed ''EMAIL_PATTERNS'' 1 then [whole_match 28 35]
      else if r = Listed ''CPF_CONTEXTUAL'' 0
        then [\<lparr>span0 = (0, 19), span1 = (5, 19), span2 = (-1, -1)\<rparr>]
      else if r = Listed ''EMAIL_CONTEXTUAL'' 0
        then [\<lparr>span0 = (20, 35), span1 = (28, 35), span2 = (-1, -1)\<rparr>]
      else if r = Inline ''cpf_aggressive'' then [whole_match 5 19]
      else if r = Inline ''cpf_context''
        then [\<lparr>span0 = (0, 19), span1 = (0, 3), span2 = (5, 19)\<rparr>]
      else [])"

definition multi_stage1 :: "Entity list" where
  "multi_stage1 =
     [new_Entity ''CPF'' (u ''123.456.789-09'') 5 19 0.9 ''regex''
        (u ''CPF padr'' @ [0xE3] @ u ''o com ou sem formata'' @ [0xE7] @ [0xE3] @ u ''o''),
      new_Entity ''EMAIL'' (u ''a@b.com'') 28 35 0.95 ''regex''
        (u ''Email padr'' @ [0xE3] @ u ''o'')]"

definition multi_final :: "Entity list" where
  "multi_final =
     [\<lparr>e_type = ''CPF'', e_value = u ''123.456.789-09'', e_start = 5, e_end = 19,
       e_confidence = 0.98, validation_status = ''valid'',
       validation_message = cpf_msg_valid,
       detection_method = ''regex'',
       explanation = u ''CPF padr'' @ [0xE3] @ u ''o com ou sem formata'' @ [0xE7] @ [0xE3]
                       @ u ''o | Valida'' @ [0xE7, 0xE3] @ u ''o: '' @ cpf_msg_valid\<rparr>,
      \<lparr>e_type = ''EMAIL'', e_value = u ''a@b.com'', e_start = 28, e_end = 35,
       e_confidence = 0.95, validation_status = ''valid'',
       validation_message = email_msg_valid,
       detection_method = ''regex'',
       explanation = u ''Email padr'' @ [0xE3] @ u ''o | Valida'' @ [0xE7, 0xE3] @ u ''o: ''
                       @ email_msg_valid\<rparr>]"

text \<open>
  What the program relies on from \<open>re\<close>. Every expression of the program consumes at
  least one character, so a match is a non-empty span inside the text; group 1 of a
  contextual expression and group 2 of the three hardwired expressions of the
  anti-false-negative pass are mandatory and consume at least one character, so they are
  non-empty spans inside the text too.
\<close>

definition span_in :: "ustring \<Rightarrow> int \<times> int \<Rightarrow> bool" where
  "span_in text sp = (0 \<le> fst sp \<and> fst sp < snd sp \<and> snd sp \<le> int (length text))"

definition contextual_regexes :: "regex list" where
  "contextual_regexes = map fst (concat (map snd pattern_groups))"

definition engine_in_text :: "re_engine \<Rightarrow> ustring \<Rightarrow> bool" where
  "engine_in_text re text =
     ((\<forall>r. \<forall>m \<in> set (re r text). span_in text (span0 m))
      \<and> (\<forall>r \<in> set contextual_regexes. \<forall>m \<in> set (re r text). span_in text (span1 m))
      \<and> (\<forall>r \<in> set [Inline ''number_pattern'', Inline ''cpf_context'', Inline ''name_keywords''].
            \<forall>m \<in> set (re r text). span_in text (span2 m)))"

definition entity_in_text :: "ustring \<Rightarrow> Entity \<Rightarrow> bool" where
  "entity_in_text text e =
     (0 \<le> e_start e \<and> e_start e < e_end e \<and> e_end e \<le> int (length text)
      \<and> 0 \<le> e_confidence e \<and> e_confidence e \<le> 1)"

text \<open>
  The check digit in the words of the specification: the remainder of the weighted sum
  modulo 11 gives 0 when it is below 2 and 11 minus the remainder otherwise.
\<close>

definition mod11_check_digit :: "int \<Rightarrow> int" where
  "mod11_check_digit weighted = (if weighted mod 11 < 2 then 0 else 11 - weighted mod 11)"

text \<open>The digits of a string are one and the same digit.\<close>

definition all_repeated :: "ustring \<Rightarrow> bool" where
  "all_repeated s = (length (remdups (map digit_of s)) \<le> 1)"

text \<open>
  Validity in the words of the specification: the right number of digits once every
  other character is removed, not one digit repeated, both check digits right.
\<close>

definition official_cpf_valid :: "ustring \<Rightarrow> bool" where
  "official_cpf_valid s =
     (let c = clean s; ds = map digit_of c in
      length c = 11 \<and> \<not> all_repeated c
      \<and> mod11_check_digit (weighted_sum (take 9 ds) [10, 9, 8, 7, 6, 5, 4, 3, 2]) = ds ! 9
      \<and> mod11_check_digit (weighted_sum (take 10 ds) [11, 10, 9, 8, 7, 6, 5, 4, 3, 2])
          = ds ! 10)"

definition official_cnpj_valid :: "ustring \<Rightarrow> bool" where
  "official_cnpj_valid s =
     (let c = clean s; ds = map digit_of c in
      length c = 14 \<and> \<not> all_repeated c
      \<and> mod11_check_digit (weighted_sum (take 12 ds) [5, 4, 3, 2, 9, 8, 7, 6, 5, 4, 3, 2])
          = ds ! 12
      \<and> mod11_check_digit (weighted_sum (take 13 ds) [6, 5, 4, 3, 2, 9, 8, 7, 6, 5, 4, 3, 2])
          = ds ! 13)"

text \<open>Eleven times the Arabic-Indic digit one (U+0661).\<close>

definition arabic_ones :: ustring where
  "arabic_ones = replicate 11 0x661"

text \<open>
  Five runs of digits and the spans of their strings: nine digits, eight digits, seven
  digits, twelve digits, and the eight digits once more.
\<close>

definition digit_groups_text :: ustring where
  "digit_groups_text = u ''123.456.789 1234-5678 123-4567 123456789012 1234-5678''"

definition digit_groups :: "re_match list" where
  "digit_groups =
     [whole_match 12 21, whole_match 22 30, whole_match 31 43, whole_match 44 53]"

text \<open>
  The text \<open>Falei com Silva\<close>, in which no expression of the program matches, and a
  detector with a loaded model. The tokenizer cuts the text into the tokens
  \<open>[CLS] Falei com Silva [SEP]\<close>, the two special tokens with the offsets \<open>(0, 0)\<close>, and
  the network labels \<open>Silva\<close> as the beginning of a person's name.
\<close>

definition silva_text :: ustring where
  "silva_text = u ''Falei com Silva''"

definition silent_engine :: re_engine where
  "silent_engine r text = []"

definition silva_model :: BertModel where
  "silva_model =
     \<lparr>bert_run = (\<lambda>text. Some [(0, 0, 0), (0, 0, 5), (0, 6, 9), (1, 10, 15), (0, 0, 0)]),
      id2label = map_of [(0, u ''O''), (1, u ''B-PER''), (2, u ''I-PER'')]\<rparr>"

definition loaded_detector :: PIIGuardian where
  "loaded_detector = \<lparr>config = get_config_for_mode BALANCED, bert_model = Some silva_model\<rparr>"

definition silva_entity :: Entity where
  "silva_entity =
     \<lparr>e_type = ''NOME_PESSOA'', e_value = u ''Silva'', e_start = 10, e_end = 0,
      e_confidence = 0.75, validation_status = ''not_applicable'', validation_message = [],
      detection_method = ''bert'',
      explanation = u ''Entidade detectada por an'' @ [0xE1] @ u ''lise contextual BERT''\<rparr>"

section \<open>Verified properties\<close>

subsection \<open>Threshold filtering\<close>

lemma apply_thresholds_idem_mono:
  assumes "\<forall>ty. threshold_for th1 ty \<le> threshold_for th2 ty"
  shows "apply_thresholds th2 (apply_thresholds th1 es) = apply_thresholds th2 es"
  unfolding apply_thresholds_def filter_filter
proof (rule filter_cong[OF refl])
  fix e assume "e \<in> set es"
  from assms
  have "threshold_for th1 (base_type_of (e_type e)) \<le> threshold_for th2 (base_type_of (e_type e))"
    by blast
  then show "(threshold_for th1 (base_type_of (e_type e)) \<le> e_confidence e
              \<and> threshold_for th2 (base_type_of (e_type e)) \<le> e_confidence e)
           = (threshold_for th2 (base_type_of (e_type e)) \<le> e_confidence e)"
    by auto
qed

lemma strict_le_precise:
  "\<forall>ty. threshold_for (thresholds (get_config_for_mode STRICT)) ty
       \<le> threshold_for (thresholds (get_config_for_mode PRECISE)) ty"
  by (simp add: threshold_for_def get_config_for_mode_def default_config_def)

text \<open>
  C6. Threshold filtering is monotone. Take any list of entities entering the threshold
  stage and two threshold maps such that the threshold in force for every type (the entry
  of the type, else the \<open>DEFAULT\<close> entry, else 0.5) is raised or kept from the first map
  to the second. Then the survivors under the second map are survivors under the first,
  in the same order, so their set is a subset and their number does not grow.
\<close>

theorem apply_thresholds_monotone:
  assumes "\<forall>ty. threshold_for th1 ty \<le> threshold_for th2 ty"
  shows "apply_thresholds th2 es = apply_thresholds th2 (apply_thresholds th1 es)
       \<and> set (apply_thresholds th2 es) \<subseteq> set (apply_thresholds th1 es)
       \<and> length (apply_thresholds th2 es) \<le> length (apply_thresholds th1 es)"
proof -
  have eq: "apply_thresholds th2 es = apply_thresholds th2 (apply_thresholds th1 es)"
    using apply_thresholds_idem_mono[OF assms] by simp
  have "set (apply_thresholds th2 (apply_thresholds th1 es)) \<subseteq> set (apply_thresholds th1 es)"
    unfolding apply_thresholds_def by (rule filter_is_subset)
  with eq have sub: "set (apply_thresholds th2 es) \<subseteq> set (apply_thresholds th1 es)"
    by simp
  have "length (apply_thresholds th2 (apply_thresholds th1 es))
          \<le> length (apply_thresholds th1 es)"
    unfolding apply_thresholds_def by (rule length_filter_le)
  with eq have len: "length (apply_thresholds th2 es) \<le> length (apply_thresholds th1 es)"
    by simp
  from eq sub len show ?thesis by blast
qed

text \<open>
  The strict and the precise presets on the two example entities: both survive the strict
  thresholds, only the e-mail address survives the precise ones.
\<close>

theorem apply_thresholds_monotone_witness:
  "set (apply_thresholds (thresholds (get_config_for_mode PRECISE)) threshold_example)
     \<subseteq> set (apply_thresholds (thresholds (get_config_for_mode STRICT)) threshold_example)
   \<and> length (apply_thresholds (thresholds (get_config_for_mode PRECISE)) threshold_example)
       \<le> length (apply_thresholds (thresholds (get_config_for_mode STRICT)) threshold_example)
   \<and> length (apply_thresholds (thresholds (get_config_for_mode PRECISE)) threshold_example) = 1
   \<and> length (apply_thresholds (thresholds (get_config_for_mode STRICT)) threshold_example) = 2"
proof -
  have "length (apply_thresholds (thresholds (get_config_for_mode PRECISE)) threshold_example) = 1"
    by (simp add: apply_thresholds_def threshold_example_def new_Entity_def threshold_for_def
          get_config_for_mode_def default_config_def base_type_of_def)
  moreover
  have "length (apply_thresholds (thresholds (get_config_for_mode STRICT)) threshold_example) = 2"
    by (simp add: apply_thresholds_def threshold_example_def new_Entity_def threshold_for_def
          get_config_for_mode_def default_config_def base_type_of_def)
  moreover note apply_thresholds_monotone[OF strict_le_precise, of threshold_example]
  ultimately show ?thesis by blast
qed

subsection \<open>The unused field\<close>

text \<open>
  C10. \<open>min_confidence\<close> of the configuration is read by no stage: two detectors whose
  configurations differ in that field only return the same result for every text,
  regular-expression engine and external model (entities with their order and fields,
  summary, \<open>has_pii\<close> and the metadata kept here). Survival is decided by the
  \<open>thresholds\<close> map alone.
\<close>

theorem detect_ignores_min_confidence:
  "detect re \<lparr>config = cfg\<lparr>min_confidence := x\<rparr>, bert_model = b\<rparr> text
     = detect re \<lparr>config = cfg, bert_model = b\<rparr> text"
  by (simp add: detect_def merged_entities_def bert_contextual_detection_def Let_def
        cong: sum.case_cong option.case_cong)

subsection \<open>Evaluation on concrete strings\<close>

lemma replicate_11: "replicate 11 c = [c, c, c, c, c, c, c, c, c, c, c]"
  by (simp add: numeral_eq_Suc)

lemma replicate_14: "replicate 14 c = [c, c, c, c, c, c, c, c, c, c, c, c, c, c]"
  by (simp add: numeral_eq_Suc)

lemma Suc_9: "Suc (Suc (Suc (Suc (Suc (Suc (Suc (Suc (Suc 0)))))))) = 9"
  by simp

lemmas str_eval = u_def clean_def is_decimal_def decimal_value_def nd_zeros_def isdigit_def
  isdigit_char_def in_ranges_def other_digit_ranges_def py_int_def digit_of_def index_def
  weighted_sum_def replicate_11 replicate_14 Let_def

lemmas cpf_eval = CPFValidator_validate_def INVALID_CPFS_def cpf_expected_def
  CPF_WEIGHTS_FIRST_def CPF_WEIGHTS_SECOND_def

lemmas cnpj_eval = CNPJValidator_validate_def INVALID_CNPJS_def cnpj_expected_def
  WEIGHTS_FIRST_def WEIGHTS_SECOND_def

lemmas phone_eval = PhoneValidator_validate_def remove_ddi_def startswith_def VALID_DDDS_def

lemmas email_eval = EmailValidator_validate_def lower_def strip_def lower_char_def
  isspace_char_def in_ranges_def space_ranges_def u_def EMAIL_PATTERN_match_def
  email_core_def before_last_def after_last_def local_char_def domain_char_def
  ascii_alnum_def ascii_alpha_def rsplit_at_def list_all_iff Let_def

subsection \<open>The validators never raise\<close>

lemma clean_all_decimal: "list_all is_decimal (clean s)"
  by (simp add: clean_def list_all_iff)

lemma py_int_single: "is_decimal c \<Longrightarrow> py_int [c] = Inr (digit_of c)"
  by (simp add: py_int_def)

lemma int_each_decimal:
  "list_all is_decimal cs \<Longrightarrow> int_each cs = Inr (map digit_of cs)"
  by (induction cs) (auto simp: py_int_single)

lemma int_each_clean: "int_each (clean s) = Inr (map digit_of (clean s))"
  by (rule int_each_decimal[OF clean_all_decimal])

lemma py_int_decimal:
  "cs \<noteq> [] \<Longrightarrow> list_all is_decimal cs \<Longrightarrow> \<exists>n. py_int cs = Inr n"
  by (simp add: py_int_def)

lemma list_all_drop: "list_all P xs \<Longrightarrow> list_all P (drop n xs)"
  by (auto simp: list_all_iff dest: in_set_dropD)

lemma list_all_take: "list_all P xs \<Longrightarrow> list_all P (take n xs)"
  by (auto simp: list_all_iff dest: in_set_takeD)

lemma CPFValidator_total: "\<exists>r. CPFValidator_validate s = Inr r"
  by (simp add: CPFValidator_validate_def Let_def int_each_clean index_def)

lemma CNPJValidator_total: "\<exists>r. CNPJValidator_validate s = Inr r"
  by (simp add: CNPJValidator_validate_def Let_def int_each_clean index_def)

lemma PhoneValidator_total: "\<exists>r. PhoneValidator_validate s = Inr r"
proof -
  define cleaned where "cleaned = remove_ddi (clean s)"
  have dec: "list_all is_decimal cleaned"
    unfolding cleaned_def using clean_all_decimal[of s]
    by (simp add: remove_ddi_def list_all_drop)
  show ?thesis
  proof (cases "length cleaned \<in> {10, 11}")
    case False
    then show ?thesis
      unfolding PhoneValidator_validate_def Let_def cleaned_def[symmetric] by simp
  next
    case True
    then have ne: "take 2 cleaned \<noteq> []" by auto
    from py_int_decimal[OF ne list_all_take[OF dec]]
    obtain ddd where ddd: "py_int (take 2 cleaned) = Inr ddd" by blast
    from True have "length cleaned = 11 \<Longrightarrow> index cleaned 2 = Inr (cleaned ! 2)"
      by (simp add: index_def)
    with True ddd show ?thesis
      unfolding PhoneValidator_validate_def Let_def cleaned_def[symmetric]
      by (auto simp: index_def)
  qed
qed

lemma CEPValidator_total: "\<exists>r. CEPValidator_validate s = Inr r"
proof (cases "length (clean s) = 8")
  case False
  then show ?thesis by (simp add: CEPValidator_validate_def Let_def)
next
  case True
  then have "clean s \<noteq> []" by auto
  then have "is_decimal (clean s ! 0)"
    using clean_all_decimal[of s] by (cases "clean s") auto
  with True show ?thesis
    by (simp add: CEPValidator_validate_def Let_def index_def py_int_single)
qed

lemma EmailValidator_total: "\<exists>r. EmailValidator_validate s = Inr r"
  by (simp add: EmailValidator_validate_def Let_def split: sum.splits prod.splits)

lemma EMAIL_PATTERN_match_at: "EMAIL_PATTERN_match e \<Longrightarrow> 0x40 \<in> set e"
  by (auto simp: EMAIL_PATTERN_match_def email_core_def dest: in_set_butlastD)

lemma validators_total: "validators ty = Some v \<Longrightarrow> \<exists>r. v s = Inr r"
  using CPFValidator_total[of s] CNPJValidator_total[of s] PhoneValidator_total[of s]
    EmailValidator_total[of s] CEPValidator_total[of s]
  by (auto simp: validators_def split: if_splits)

lemma validate_entity_total: "\<exists>k. validate_entity md entity = Inr k"
proof (cases "validators (base_type_of (e_type entity))")
  case None
  then show ?thesis by (simp add: validate_entity_def)
next
  case (Some v)
  from validators_total[OF Some, of "e_value entity"]
  obtain r where "v (e_value entity) = Inr r" by blast
  with Some show ?thesis by (simp add: validate_entity_def Let_def)
qed

lemma validate_consistency_eq:
  "validate_consistency md es = Inr (concat (map (kept md) es))"
proof (induction es)
  case Nil
  show ?case by simp
next
  case (Cons e es)
  obtain k where "validate_entity md e = Inr k"
    using validate_entity_total by blast
  with Cons show ?case by (simp add: kept_def split: option.splits)
qed

subsection \<open>Fusion\<close>

lemma has_overlap_update_right [simp]:
  "has_overlap c (r\<lparr>e_confidence := x, detection_method := y\<rparr>) = has_overlap c r"
  by (simp add: has_overlap_def)

lemma update_first_overlap_none:
  "\<not> list_ex (has_overlap b) rs \<Longrightarrow> update_first_overlap b rs = rs"
  by (induction rs) auto

lemma update_first_overlap_first:
  "\<not> list_ex (has_overlap b) pre \<Longrightarrow> has_overlap b r \<Longrightarrow>
   update_first_overlap b (pre @ r # post) =
     pre @ (if e_confidence b > e_confidence r
            then r\<lparr>e_confidence := e_confidence b, detection_method := ''hybrid''\<rparr>
            else r) # post"
  by (induction pre) auto

lemma update_first_overlap_same:
  "list_all2 same_but_confidence_method rs (update_first_overlap b rs)"
  by (induction rs) (auto simp: same_but_confidence_method_def list_all2_refl)

lemma update_first_overlap_ex [simp]:
  "list_ex (has_overlap c) (update_first_overlap b rs) = list_ex (has_overlap c) rs"
  by (induction rs) auto

lemma merge_loop_eq:
  "merge_loop rs app bs =
     (foldl (\<lambda>rs b. update_first_overlap b rs) rs bs,
      app @ filter (\<lambda>b. \<not> list_ex (has_overlap b) rs) bs)"
proof (induction bs arbitrary: rs app)
  case Nil
  show ?case by simp
next
  case (Cons b bs)
  show ?case
  proof (cases "list_ex (has_overlap b) rs")
    case True
    then show ?thesis using Cons.IH[of "update_first_overlap b rs" app] by simp
  next
    case False
    then show ?thesis
      using Cons.IH[of rs "app @ [b]"] by (simp add: update_first_overlap_none)
  qed
qed

lemma same_but_trans:
  "same_but_confidence_method a b \<Longrightarrow> same_but_confidence_method b c
     \<Longrightarrow> same_but_confidence_method a c"
  unfolding same_but_confidence_method_def
  by (cases a, cases b, cases c) auto

lemma same_but_refl: "same_but_confidence_method a a"
  by (simp add: same_but_confidence_method_def)

lemma foldl_update_same:
  "list_all2 same_but_confidence_method rs (foldl (\<lambda>rs b. update_first_overlap b rs) rs bs)"
proof (induction bs arbitrary: rs)
  case Nil
  show ?case by (simp add: list_all2_refl same_but_refl)
next
  case (Cons b bs)
  have "list_all2 same_but_confidence_method rs (update_first_overlap b rs)"
    by (rule update_first_overlap_same)
  moreover have "list_all2 same_but_confidence_method (update_first_overlap b rs)
       (foldl (\<lambda>rs b. update_first_overlap b rs) (update_first_overlap b rs) bs)"
    by (rule Cons.IH)
  ultimately show ?case
    using list_all2_trans[of same_but_confidence_method same_but_confidence_method
        same_but_confidence_method]
    by (auto intro: same_but_trans)
qed

text \<open>
  C5. The merged list is the list of pattern hits, each at its place and with its type,
  value, span and explanation, followed by the model hits that overlap no pattern hit, in
  their order; a model hit that overlaps a pattern hit is not appended. The pattern hits
  differ from the originals in confidence and detection method only: each model hit, in
  turn, leaves them alone when it overlaps none, and otherwise touches the first pattern
  hit it overlaps, whose confidence becomes the model's and whose method becomes
  \<open>hybrid\<close> when the model's confidence is larger than the one it has by then. So every
  span of an overlapping region comes from the pattern layer.
\<close>

theorem merge_detections_spec:
  "merge_detections regex_matches bert_matches =
     foldl (\<lambda>rs b. update_first_overlap b rs) regex_matches bert_matches
       @ filter (\<lambda>b. \<not> list_ex (has_overlap b) regex_matches) bert_matches
   \<and> list_all2 same_but_confidence_method regex_matches
        (foldl (\<lambda>rs b. update_first_overlap b rs) regex_matches bert_matches)
   \<and> (\<forall>b rs. \<not> list_ex (has_overlap b) rs \<longrightarrow> update_first_overlap b rs = rs)
   \<and> (\<forall>b pre r post. \<not> list_ex (has_overlap b) pre \<and> has_overlap b r \<longrightarrow>
        update_first_overlap b (pre @ r # post) =
          pre @ (if e_confidence b > e_confidence r
                 then r\<lparr>e_confidence := e_confidence b, detection_method := ''hybrid''\<rparr>
                 else r) # post)"
  by (simp add: merge_detections_def merge_loop_eq foldl_update_same
        update_first_overlap_none update_first_overlap_first)

text \<open>
  On the example the e-mail hit takes the model's confidence, the CPF hit keeps its own,
  and only the third model hit is appended.
\<close>

theorem merge_detections_spec_witness:
  "merge_detections fusion_regex fusion_bert =
     [new_Entity ''CPF'' (u ''123.456.789-09'') 0 14 0.9 ''regex'' [],
      new_Entity ''EMAIL'' (u ''a@b.com'') 20 27 0.75 ''hybrid'' [],
      new_Entity ''NOME_PESSOA'' (u ''Ana'') 30 33 0.75 ''bert'' []]
   \<and> update_first_overlap (new_Entity ''NOME_PESSOA'' (u ''b.com'') 22 27 0.75 ''bert'' [])
        fusion_regex =
     [new_Entity ''CPF'' (u ''123.456.789-09'') 0 14 0.9 ''regex'' [],
      new_Entity ''EMAIL'' (u ''a@b.com'') 20 27 0.75 ''hybrid'' []]"
proof -
  let ?b = "new_Entity ''NOME_PESSOA'' (u ''b.com'') 22 27 0.75 ''bert'' []"
  let ?cpf = "new_Entity ''CPF'' (u ''123.456.789-09'') 0 14 0.9 ''regex'' []"
  let ?mail = "new_Entity ''EMAIL'' (u ''a@b.com'') 20 27 0.7 ''regex'' []"
  note spec = merge_detections_spec[of fusion_regex fusion_bert]
  have pre: "\<not> list_ex (has_overlap ?b) [?cpf] \<and> has_overlap ?b ?mail"
    by (simp add: has_overlap_def new_Entity_def)
  from spec pre have "update_first_overlap ?b ([?cpf] @ ?mail # []) =
      [?cpf] @ (if e_confidence ?b > e_confidence ?mail
                then ?mail\<lparr>e_confidence := e_confidence ?b, detection_method := ''hybrid''\<rparr>
                else ?mail) # []"
    by blast
  then have second: "update_first_overlap ?b fusion_regex =
     [?cpf, new_Entity ''EMAIL'' (u ''a@b.com'') 20 27 0.75 ''hybrid'' []]"
    by (simp add: fusion_regex_def new_Entity_def)
  from spec have "merge_detections fusion_regex fusion_bert =
     foldl (\<lambda>rs b. update_first_overlap b rs) fusion_regex fusion_bert
       @ filter (\<lambda>b. \<not> list_ex (has_overlap b) fusion_regex) fusion_bert"
    by blast
  then have first: "merge_detections fusion_regex fusion_bert =
     [?cpf, new_Entity ''EMAIL'' (u ''a@b.com'') 20 27 0.75 ''hybrid'' [],
      new_Entity ''NOME_PESSOA'' (u ''Ana'') 30 33 0.75 ''bert'' []]"
    by (simp add: fusion_regex_def fusion_bert_def new_Entity_def has_overlap_def)
  from first second show ?thesis by blast
qed

subsection \<open>Structural failures of the validators\<close>

text \<open>
  C8, as the code has it. Every validator returns a result for every string and raises
  nothing. A candidate whose digits, once every other character is removed (and, for a
  telephone, the country code of an over-long number), are not of the required number
  (11, 14, 10 or 11, 8) gets \<open>is_valid = False\<close>, confidence 0 and a message that is not
  empty; so does an address that does not fit \<open>EMAIL_PATTERN\<close>. Characters other than
  digits are removed before the count and cause no failure of their own. An address
  that fits the pattern and whose local part is longer than 64 characters, or whose
  domain is longer than 255, gets \<open>is_valid = False\<close> with confidence 0.3, not 0.
\<close>

theorem validators_structural_failure:
  "(\<exists>r. CPFValidator_validate s = Inr r) \<and> (\<exists>r. CNPJValidator_validate s = Inr r)
   \<and> (\<exists>r. PhoneValidator_validate s = Inr r) \<and> (\<exists>r. EmailValidator_validate s = Inr r)
   \<and> (\<exists>r. CEPValidator_validate s = Inr r)
   \<and> (length (clean s) \<noteq> 11 \<longrightarrow>
        CPFValidator_validate s =
          Inr \<lparr>is_valid = False, confidence = 0,
               message = cpf_msg_length (length (clean s)), cleaned_value = None\<rparr>)
   \<and> (length (clean s) \<noteq> 14 \<longrightarrow>
        CNPJValidator_validate s =
          Inr \<lparr>is_valid = False, confidence = 0,
               message = cnpj_msg_length (length (clean s)), cleaned_value = None\<rparr>)
   \<and> (length (remove_ddi (clean s)) \<noteq> 10 \<and> length (remove_ddi (clean s)) \<noteq> 11 \<longrightarrow>
        PhoneValidator_validate s =
          Inr \<lparr>is_valid = False, confidence = 0,
               message = phone_msg_length (length (remove_ddi (clean s))),
               cleaned_value = None\<rparr>)
   \<and> (length (clean s) \<noteq> 8 \<longrightarrow>
        CEPValidator_validate s =
          Inr \<lparr>is_valid = False, confidence = 0,
               message = cep_msg_length (length (clean s)), cleaned_value = None\<rparr>)
   \<and> (\<not> EMAIL_PATTERN_match (lower (strip s)) \<longrightarrow>
        EmailValidator_validate s =
          Inr \<lparr>is_valid = False, confidence = 0,
               message = email_msg_format, cleaned_value = None\<rparr>)
   \<and> (EMAIL_PATTERN_match (lower (strip s))
        \<and> length (before_last 0x40 (lower (strip s))) > 64 \<longrightarrow>
        EmailValidator_validate s =
          Inr \<lparr>is_valid = False, confidence = 0.3,
               message = email_msg_local, cleaned_value = None\<rparr>)
   \<and> (EMAIL_PATTERN_match (lower (strip s))
        \<and> length (before_last 0x40 (lower (strip s))) \<le> 64
        \<and> length (after_last 0x40 (lower (strip s))) > 255 \<longrightarrow>
        EmailValidator_validate s =
          Inr \<lparr>is_valid = False, confidence = 0.3,
               message = email_msg_domain, cleaned_value = None\<rparr>)
   \<and> cpf_msg_length n \<noteq> [] \<and> cnpj_msg_length n \<noteq> [] \<and> phone_msg_length n \<noteq> []
   \<and> cep_msg_length n \<noteq> [] \<and> email_msg_format \<noteq> []
   \<and> email_msg_local \<noteq> [] \<and> email_msg_domain \<noteq> []"
proof -
  have t: "(\<exists>r. CPFValidator_validate s = Inr r) \<and> (\<exists>r. CNPJValidator_validate s = Inr r)
   \<and> (\<exists>r. PhoneValidator_validate s = Inr r) \<and> (\<exists>r. EmailValidator_validate s = Inr r)
   \<and> (\<exists>r. CEPValidator_validate s = Inr r)"
    using CPFValidator_total CNPJValidator_total PhoneValidator_total EmailValidator_total
      CEPValidator_total by blast
  have c1: "length (clean s) \<noteq> 11 \<longrightarrow>
        CPFValidator_validate s =
          Inr \<lparr>is_valid = False, confidence = 0,
               message = cpf_msg_length (length (clean s)), cleaned_value = None\<rparr>"
    by (simp add: CPFValidator_validate_def Let_def)
  have c2: "length (clean s) \<noteq> 14 \<longrightarrow>
        CNPJValidator_validate s =
          Inr \<lparr>is_valid = False, confidence = 0,
               message = cnpj_msg_length (length (clean s)), cleaned_value = None\<rparr>"
    by (simp add: CNPJValidator_validate_def Let_def)
  have c3: "length (remove_ddi (clean s)) \<noteq> 10 \<and> length (remove_ddi (clean s)) \<noteq> 11 \<longrightarrow>
        PhoneValidator_validate s =
          Inr \<lparr>is_valid = False, confidence = 0,
               message = phone_msg_length (length (remove_ddi (clean s))),
               cleaned_value = None\<rparr>"
    by (simp add: PhoneValidator_validate_def Let_def)
  have c4: "length (clean s) \<noteq> 8 \<longrightarrow>
        CEPValidator_validate s =
          Inr \<lparr>is_valid = False, confidence = 0,
               message = cep_msg_length (length (clean s)), cleaned_value = None\<rparr>"
    by (simp add: CEPValidator_validate_def Let_def)
  have c5: "\<not> EMAIL_PATTERN_match (lower (strip s)) \<longrightarrow>
        EmailValidator_validate s =
          Inr \<lparr>is_valid = False, confidence = 0,
               message = email_msg_format, cleaned_value = None\<rparr>"
    by (simp add: EmailValidator_validate_def Let_def)
  have c6: "EMAIL_PATTERN_match (lower (strip s))
        \<and> length (before_last 0x40 (lower (strip s))) > 64 \<longrightarrow>
        EmailValidator_validate s =
          Inr \<lparr>is_valid = False, confidence = 0.3,
               message = email_msg_local, cleaned_value = None\<rparr>"
    by (auto simp: EmailValidator_validate_def Let_def rsplit_at_def
          dest: EMAIL_PATTERN_match_at)
  have c7: "EMAIL_PATTERN_match (lower (strip s))
        \<and> length (before_last 0x40 (lower (strip s))) \<le> 64
        \<and> length (after_last 0x40 (lower (strip s))) > 255 \<longrightarrow>
        EmailValidator_validate s =
          Inr \<lparr>is_valid = False, confidence = 0.3,
               message = email_msg_domain, cleaned_value = None\<rparr>"
    by (auto simp: EmailValidator_validate_def Let_def rsplit_at_def
          dest: EMAIL_PATTERN_match_at)
  have m: "cpf_msg_length n \<noteq> [] \<and> cnpj_msg_length n \<noteq> [] \<and> phone_msg_length n \<noteq> []
   \<and> cep_msg_length n \<noteq> [] \<and> email_msg_format \<noteq> []
   \<and> email_msg_local \<noteq> [] \<and> email_msg_domain \<noteq> []"
    by (simp add: cpf_msg_length_def cnpj_msg_length_def phone_msg_length_def
          cep_msg_length_def email_msg_format_def email_msg_local_def email_msg_domain_def
          u_def)
  from t c1 c2 c3 c4 c5 c6 c7 m show ?thesis by blast
qed

text \<open>
  A telephone candidate without area code has nine digits and fails with confidence 0;
  the address with the long local part fits the pattern and fails with confidence 0.3.
\<close>

theorem validators_structural_failure_witness:
  "PhoneValidator_validate (u ''99999-8888'') =
     Inr \<lparr>is_valid = False, confidence = 0,
          message = phone_msg_length 9, cleaned_value = None\<rparr>
   \<and> EmailValidator_validate long_local_email =
     Inr \<lparr>is_valid = False, confidence = 0.3,
          message = email_msg_local, cleaned_value = None\<rparr>"
proof -
  have len: "length (remove_ddi (clean (u ''99999-8888''))) = 9"
    by (simp add: remove_ddi_def startswith_def str_eval)
  then have "length (remove_ddi (clean (u ''99999-8888''))) \<noteq> 10
           \<and> length (remove_ddi (clean (u ''99999-8888''))) \<noteq> 11"
    by simp
  with validators_structural_failure[of "u ''99999-8888''"]
  have "PhoneValidator_validate (u ''99999-8888'') =
          Inr \<lparr>is_valid = False, confidence = 0,
               message = phone_msg_length (length (remove_ddi (clean (u ''99999-8888'')))),
               cleaned_value = None\<rparr>"
    by blast
  with len have first: "PhoneValidator_validate (u ''99999-8888'') =
     Inr \<lparr>is_valid = False, confidence = 0,
          message = phone_msg_length 9, cleaned_value = None\<rparr>"
    by simp
  have "EMAIL_PATTERN_match (lower (strip long_local_email))
        \<and> length (before_last 0x40 (lower (strip long_local_email))) > 64"
    by (simp add: long_local_email_def email_eval)
  with validators_structural_failure[of long_local_email]
  have second: "EmailValidator_validate long_local_email =
     Inr \<lparr>is_valid = False, confidence = 0.3,
          message = email_msg_local, cleaned_value = None\<rparr>"
    by blast
  from first second show ?thesis by blast
qed

text \<open>
  The claim as written gives confidence 0 to every failure of length. The address of 65
  letters, an at sign and \<open>b.com\<close> fails for the length of its local part with
  confidence 0.3.
\<close>

theorem email_length_failure_counterexample:
  "\<exists>r. EmailValidator_validate long_local_email = Inr r
       \<and> \<not> is_valid r \<and> confidence r = 0.3 \<and> confidence r \<noteq> 0
       \<and> message r = email_msg_local"
  by (simp add: long_local_email_def email_eval)

subsection \<open>Validation stage\<close>

text \<open>
  C3, as the code has it. An entity whose base type has no validator is marked
  \<open>not_applicable\<close> and kept as it is. Otherwise the validator returns a result and:
  when the result is valid the entity is kept, marked \<open>valid\<close>, with the larger of its
  confidence and the validator's and the validator's message appended to its explanation;
  when it is invalid and the base type is CPF or CNPJ the entity is kept with half its
  confidence (and a warning appended) in strict mode and dropped in the other two modes;
  when it is invalid and the base type is another one the entity is kept with its
  confidence, explanation and every other field, except that its validation status
  becomes \<open>invalid\<close> and its validation message the validator's. The stage never raises
  and returns the kept entities in their order.
\<close>

theorem validate_entity_spec:
  "(validators (base_type_of (e_type entity)) = None \<longrightarrow>
      validate_entity md entity = Inr (Some (entity\<lparr>validation_status := ''not_applicable''\<rparr>)))
   \<and> (\<forall>validator. validators (base_type_of (e_type entity)) = Some validator \<longrightarrow>
        (\<exists>result. validator (e_value entity) = Inr result \<and>
           validate_entity md entity =
             (if is_valid result then
                Inr (Some (entity
                  \<lparr>validation_status := ''valid'', validation_message := message result,
                   e_confidence := max (e_confidence entity) (confidence result),
                   explanation := explanation entity @ u '' | Valida'' @ [0xE7, 0xE3] @ u ''o: ''
                                    @ message result\<rparr>))
              else if base_type_of (e_type entity) = ''CPF''
                      \<or> base_type_of (e_type entity) = ''CNPJ'' then
                (if md = STRICT then
                   Inr (Some (entity
                     \<lparr>validation_status := ''invalid'', validation_message := message result,
                      e_confidence := e_confidence entity / 2,
                      explanation := explanation entity @ u '' | AVISO: ''
                                       @ message result\<rparr>))
                 else Inr None)
              else
                Inr (Some (entity
                  \<lparr>validation_status := ''invalid'',
                   validation_message := message result\<rparr>)))))
   \<and> (\<exists>keep. (\<forall>e. validate_entity md e = Inr (keep e))
         \<and> validate_consistency md es = Inr (List.map_filter keep es))"
proof -
  have a: "validators (base_type_of (e_type entity)) = None \<longrightarrow>
      validate_entity md entity = Inr (Some (entity\<lparr>validation_status := ''not_applicable''\<rparr>))"
    by (simp add: validate_entity_def)
  have b: "\<forall>validator. validators (base_type_of (e_type entity)) = Some validator \<longrightarrow>
        (\<exists>result. validator (e_value entity) = Inr result \<and>
           validate_entity md entity =
             (if is_valid result then
                Inr (Some (entity
                  \<lparr>validation_status := ''valid'', validation_message := message result,
                   e_confidence := max (e_confidence entity) (confidence result),
                   explanation := explanation entity @ u '' | Valida'' @ [0xE7, 0xE3] @ u ''o: ''
                                    @ message result\<rparr>))
              else if base_type_of (e_type entity) = ''CPF''
                      \<or> base_type_of (e_type entity) = ''CNPJ'' then
                (if md = STRICT then
                   Inr (Some (entity
                     \<lparr>validation_status := ''invalid'', validation_message := message result,
                      e_confidence := e_confidence entity / 2,
                      explanation := explanation entity @ u '' | AVISO: ''
                                       @ message result\<rparr>))
                 else Inr None)
              else
                Inr (Some (entity
                  \<lparr>validation_status := ''invalid'',
                   validation_message := message result\<rparr>))))"
  proof (intro allI impI)
    fix validator assume v: "validators (base_type_of (e_type entity)) = Some validator"
    from validators_total[OF v, of "e_value entity"]
    obtain result where r: "validator (e_value entity) = Inr result" by blast
    show "\<exists>result. validator (e_value entity) = Inr result \<and>
           validate_entity md entity =
             (if is_valid result then
                Inr (Some (entity
                  \<lparr>validation_status := ''valid'', validation_message := message result,
                   e_confidence := max (e_confidence entity) (confidence result),
                   explanation := explanation entity @ u '' | Valida'' @ [0xE7, 0xE3] @ u ''o: ''
                                    @ message result\<rparr>))
              else if base_type_of (e_type entity) = ''CPF''
                      \<or> base_type_of (e_type entity) = ''CNPJ'' then
                (if md = STRICT then
                   Inr (Some (entity
                     \<lparr>validation_status := ''invalid'', validation_message := message result,
                      e_confidence := e_confidence entity / 2,
                      explanation := explanation entity @ u '' | AVISO: ''
                                       @ message result\<rparr>))
                 else Inr None)
              else
                Inr (Some (entity
                  \<lparr>validation_status := ''invalid'',
                   validation_message := message result\<rparr>)))"
      using v r by (intro exI[of _ result]) (simp add: validate_entity_def Let_def)
  qed
  define keep where "keep = (\<lambda>e. case validate_entity md e of Inr k \<Rightarrow> k | Inl _ \<Rightarrow> None)"
  have k1: "\<forall>e. validate_entity md e = Inr (keep e)"
  proof
    fix e
    obtain k where "validate_entity md e = Inr k" using validate_entity_total by blast
    then show "validate_entity md e = Inr (keep e)" by (simp add: keep_def)
  qed
  have "concat (map (kept md) es) = List.map_filter keep es"
    by (induction es)
       (auto simp: kept_def keep_def List.map_filter_simps split: sum.splits option.splits)
  then have k2: "validate_consistency md es = Inr (List.map_filter keep es)"
    by (simp add: validate_consistency_eq)
  from a b k1 k2 show ?thesis by blast
qed

lemma base_type_eval:
  "base_type_of ''TELEFONE'' = ''TELEFONE''" "base_type_of ''CPF_CONTEXTUAL'' = ''CPF''"
  "base_type_of ''CPF'' = ''CPF''" "base_type_of ''NOME_PESSOA'' = ''NOME_PESSOA''"
  by (simp_all add: base_type_of_def)

lemma validators_eval:
  "validators ''TELEFONE'' = Some PhoneValidator_validate"
  "validators ''CPF'' = Some CPFValidator_validate"
  "validators ''NOME_PESSOA'' = None"
  by (simp_all add: validators_def)

lemma phone_without_ddd_result:
  "PhoneValidator_validate (u ''99999-8888'') =
     Inr \<lparr>is_valid = False, confidence = 0,
          message = phone_msg_length 9, cleaned_value = None\<rparr>"
  by (simp add: phone_eval str_eval Suc_9)

lemma cpf_repeated_result:
  "CPFValidator_validate (u ''111.111.111-11'') =
     Inr \<lparr>is_valid = False, confidence = 0,
          message = u ''CPF'' @ sequencia_invalida, cleaned_value = None\<rparr>"
  by (simp add: cpf_eval str_eval)

lemma cpf_good_result:
  "CPFValidator_validate (u ''529.982.247-25'') =
     Inr \<lparr>is_valid = True, confidence = 0.98,
          message = cpf_msg_valid, cleaned_value = Some (u ''52998224725'')\<rparr>"
  by (simp add: cpf_eval str_eval)

text \<open>
  The four cases on four entities: a CPF whose digits are all 1, found by context; a CPF
  with right check digits; a telephone number without area code; a person's name.
\<close>

theorem validate_entity_spec_witness:
  "validate_entity STRICT cpf_repeated =
     Inr (Some (cpf_repeated
       \<lparr>validation_status := ''invalid'',
        validation_message := u ''CPF'' @ sequencia_invalida,
        e_confidence := 0.46,
        explanation := u '' | AVISO: '' @ u ''CPF'' @ sequencia_invalida\<rparr>))
   \<and> validate_entity BALANCED cpf_repeated = Inr None
   \<and> validate_entity PRECISE cpf_repeated = Inr None
   \<and> validate_entity BALANCED cpf_good =
     Inr (Some (cpf_good
       \<lparr>validation_status := ''valid'', validation_message := cpf_msg_valid,
        e_confidence := 0.98,
        explanation := u '' | Valida'' @ [0xE7, 0xE3] @ u ''o: '' @ cpf_msg_valid\<rparr>))
   \<and> validate_entity PRECISE phone_without_ddd =
     Inr (Some (phone_without_ddd
       \<lparr>validation_status := ''invalid'', validation_message := phone_msg_length 9\<rparr>))
   \<and> validate_entity BALANCED person_name =
     Inr (Some (person_name\<lparr>validation_status := ''not_applicable''\<rparr>))"
proof -
  have rep: "validators (base_type_of (e_type cpf_repeated)) = Some CPFValidator_validate"
            "e_value cpf_repeated = u ''111.111.111-11''"
            "base_type_of (e_type cpf_repeated) = ''CPF''"
            "e_confidence cpf_repeated = 0.92" "explanation cpf_repeated = []"
    by (simp_all add: cpf_repeated_def new_Entity_def base_type_eval validators_eval)
  have good: "validators (base_type_of (e_type cpf_good)) = Some CPFValidator_validate"
            "e_value cpf_good = u ''529.982.247-25''"
            "e_confidence cpf_good = 0.9" "explanation cpf_good = []"
    by (simp_all add: cpf_good_def new_Entity_def base_type_eval validators_eval)
  have phone: "validators (base_type_of (e_type phone_without_ddd))
                 = Some PhoneValidator_validate"
            "e_value phone_without_ddd = u ''99999-8888''"
            "base_type_of (e_type phone_without_ddd) = ''TELEFONE''"
    by (simp_all add: phone_without_ddd_def new_Entity_def base_type_eval validators_eval)
  have name: "validators (base_type_of (e_type person_name)) = None"
    by (simp add: person_name_def new_Entity_def base_type_eval validators_eval)
  have 1: "validate_entity STRICT cpf_repeated =
     Inr (Some (cpf_repeated
       \<lparr>validation_status := ''invalid'',
        validation_message := u ''CPF'' @ sequencia_invalida,
        e_confidence := 0.46,
        explanation := u '' | AVISO: '' @ u ''CPF'' @ sequencia_invalida\<rparr>))"
    using validate_entity_spec[of cpf_repeated STRICT] rep cpf_repeated_result by auto
  have 2: "validate_entity BALANCED cpf_repeated = Inr None"
    using validate_entity_spec[of cpf_repeated BALANCED] rep cpf_repeated_result by auto
  have 3: "validate_entity PRECISE cpf_repeated = Inr None"
    using validate_entity_spec[of cpf_repeated PRECISE] rep cpf_repeated_result by auto
  have 4: "validate_entity BALANCED cpf_good =
     Inr (Some (cpf_good
       \<lparr>validation_status := ''valid'', validation_message := cpf_msg_valid,
        e_confidence := 0.98,
        explanation := u '' | Valida'' @ [0xE7, 0xE3] @ u ''o: '' @ cpf_msg_valid\<rparr>))"
    using validate_entity_spec[of cpf_good BALANCED] good cpf_good_result by auto
  have 5: "validate_entity PRECISE phone_without_ddd =
     Inr (Some (phone_without_ddd
       \<lparr>validation_status := ''invalid'', validation_message := phone_msg_length 9\<rparr>))"
    using validate_entity_spec[of phone_without_ddd PRECISE] phone phone_without_ddd_result
    by auto
  have 6: "validate_entity BALANCED person_name =
     Inr (Some (person_name\<lparr>validation_status := ''not_applicable''\<rparr>))"
    using validate_entity_spec[of person_name BALANCED] name by blast
  from 1 2 3 4 5 6 show ?thesis by blast
qed

text \<open>
  The claim as written keeps an entity of another type unchanged when its validator
  reports invalid. The telephone number without area code comes out with its validation
  status and message changed, so it is not the entity that went in.
\<close>

theorem validate_entity_marks_invalid_counterexample:
  "validate_entity BALANCED phone_without_ddd =
     Inr (Some (phone_without_ddd
       \<lparr>validation_status := ''invalid'', validation_message := phone_msg_length 9\<rparr>))
   \<and> validate_entity BALANCED phone_without_ddd \<noteq> Inr (Some phone_without_ddd)"
  by (simp add: validate_entity_def phone_without_ddd_def new_Entity_def base_type_eval
        validators_eval phone_without_ddd_result)

subsection \<open>The aggressive matchers\<close>

lemma cpf_aggressive_loop_append:
  "cpf_aggressive_loop text es (ms1 @ ms2)
     = cpf_aggressive_loop text (cpf_aggressive_loop text es ms1) ms2"
  by (induction ms1 arbitrary: es) (simp_all add: Let_def)

lemma phone_aggressive_loop_append:
  "phone_aggressive_loop text es (ms1 @ ms2)
     = phone_aggressive_loop text (phone_aggressive_loop text es ms1) ms2"
  by (induction ms1 arbitrary: es) (simp_all add: Let_def)

lemma cpf_aggressive_loop_added:
  "\<exists>added. cpf_aggressive_loop text es ms = es @ added
     \<and> (\<forall>e \<in> set added. \<exists>m \<in> set ms. e = cpf_aggressive_entity text m
            \<and> 9 \<le> count_digits (e_value e) \<and> count_digits (e_value e) \<le> 11
            \<and> e_value e \<notin> set (map e_value es))"
proof (induction ms arbitrary: es)
  case Nil
  show ?case by simp
next
  case (Cons m ms)
  let ?v = "group text (span0 m)"
  let ?c = "\<not> list_ex (\<lambda>e. e_value e = ?v) es \<and> 9 \<le> count_digits ?v \<and> count_digits ?v \<le> 11"
  show ?case
  proof (cases ?c)
    case False
    from Cons.IH[of es] obtain added where
      a: "cpf_aggressive_loop text es ms = es @ added"
         "\<forall>e \<in> set added. \<exists>m \<in> set ms. e = cpf_aggressive_entity text m
            \<and> 9 \<le> count_digits (e_value e) \<and> count_digits (e_value e) \<le> 11
            \<and> e_value e \<notin> set (map e_value es)"
      by blast
    from False a(1) have "cpf_aggressive_loop text es (m # ms) = es @ added"
      by (auto simp: Let_def)
    with a(2) show ?thesis by auto
  next
    case True
    let ?n = "cpf_aggressive_entity text m"
    from Cons.IH[of "es @ [?n]"] obtain added where
      a: "cpf_aggressive_loop text (es @ [?n]) ms = (es @ [?n]) @ added"
         "\<forall>e \<in> set added. \<exists>m \<in> set ms. e = cpf_aggressive_entity text m
            \<and> 9 \<le> count_digits (e_value e) \<and> count_digits (e_value e) \<le> 11
            \<and> e_value e \<notin> set (map e_value (es @ [?n]))"
      by blast
    from True a(1) have eq: "cpf_aggressive_loop text es (m # ms) = es @ (?n # added)"
      by (simp add: Let_def)
    have v: "e_value ?n = ?v" by (simp add: cpf_aggressive_entity_def new_Entity_def)
    from True have nin: "?v \<notin> set (map e_value es)" by (auto simp: list_ex_iff)
    have "\<forall>e \<in> set (?n # added). \<exists>m' \<in> set (m # ms). e = cpf_aggressive_entity text m'
            \<and> 9 \<le> count_digits (e_value e) \<and> count_digits (e_value e) \<le> 11
            \<and> e_value e \<notin> set (map e_value es)"
      using a(2) True v nin by auto
    with eq show ?thesis by blast
  qed
qed

lemma phone_aggressive_loop_added:
  "\<exists>added. phone_aggressive_loop text es ms = es @ added
     \<and> (\<forall>e \<in> set added. \<exists>m \<in> set ms. e = phone_aggressive_entity text m
            \<and> 8 \<le> count_digits (e_value e) \<and> count_digits (e_value e) \<le> 11
            \<and> e_value e \<notin> set (map e_value es))"
proof (induction ms arbitrary: es)
  case Nil
  show ?case by simp
next
  case (Cons m ms)
  let ?v = "group text (span0 m)"
  let ?c = "\<not> list_ex (\<lambda>e. e_value e = ?v) es \<and> 8 \<le> count_digits ?v \<and> count_digits ?v \<le> 11"
  show ?case
  proof (cases ?c)
    case False
    from Cons.IH[of es] obtain added where
      a: "phone_aggressive_loop text es ms = es @ added"
         "\<forall>e \<in> set added. \<exists>m \<in> set ms. e = phone_aggressive_entity text m
            \<and> 8 \<le> count_digits (e_value e) \<and> count_digits (e_value e) \<le> 11
            \<and> e_value e \<notin> set (map e_value es)"
      by blast
    from False a(1) have "phone_aggressive_loop text es (m # ms) = es @ added"
      by (auto simp: Let_def)
    with a(2) show ?thesis by auto
  next
    case True
    let ?n = "phone_aggressive_entity text m"
    from Cons.IH[of "es @ [?n]"] obtain added where
      a: "phone_aggressive_loop text (es @ [?n]) ms = (es @ [?n]) @ added"
         "\<forall>e \<in> set added. \<exists>m \<in> set ms. e = phone_aggressive_entity text m
            \<and> 8 \<le> count_digits (e_value e) \<and> count_digits (e_value e) \<le> 11
            \<and> e_value e \<notin> set (map e_value (es @ [?n]))"
      by blast
    from True a(1) have eq: "phone_aggressive_loop text es (m # ms) = es @ (?n # added)"
      by (simp add: Let_def)
    have v: "e_value ?n = ?v" by (simp add: phone_aggressive_entity_def new_Entity_def)
    from True have nin: "?v \<notin> set (map e_value es)" by (auto simp: list_ex_iff)
    have "\<forall>e \<in> set (?n # added). \<exists>m' \<in> set (m # ms). e = phone_aggressive_entity text m'
            \<and> 8 \<le> count_digits (e_value e) \<and> count_digits (e_value e) \<le> 11
            \<and> e_value e \<notin> set (map e_value es)"
      using a(2) True v nin by auto
    with eq show ?thesis by blast
  qed
qed

text \<open>
  C9. Each aggressive matcher goes through its matches from left to right. Whatever came
  before a match \<open>m\<close> (\<open>ms1\<close>) and comes after it (\<open>ms2\<close>), the entity for \<open>m\<close> is appended to
  the entities collected so far exactly when no collected entity has the matched string as
  its value and the number of characters of the string that are digits is 9 to 11 (CPF)
  or 8 to 11 (telephone); spans play no part in the test. The loops only append, and every
  appended entity has the matched string and span, the method \<open>regex_aggressive\<close>
  (\<open>pattern_aggressive\<close> in the specification) and the confidence 0.7 (CPF) or 0.75
  (telephone). The telephone matcher runs on what the catalogue and the CPF matcher
  collected.
\<close>

theorem aggressive_matchers_spec:
  "cpf_aggressive_loop text es (ms1 @ m # ms2) =
     cpf_aggressive_loop text
       (cpf_aggressive_loop text es ms1 @
          (if \<not> list_ex (\<lambda>e. e_value e = group text (span0 m))
                   (cpf_aggressive_loop text es ms1)
              \<and> 9 \<le> length (filter isdigit_char (group text (span0 m)))
              \<and> length (filter isdigit_char (group text (span0 m))) \<le> 11
           then [cpf_aggressive_entity text m] else [])) ms2
   \<and> phone_aggressive_loop text es (ms1 @ m # ms2) =
     phone_aggressive_loop text
       (phone_aggressive_loop text es ms1 @
          (if \<not> list_ex (\<lambda>e. e_value e = group text (span0 m))
                   (phone_aggressive_loop text es ms1)
              \<and> 8 \<le> length (filter isdigit_char (group text (span0 m)))
              \<and> length (filter isdigit_char (group text (span0 m))) \<le> 11
           then [phone_aggressive_entity text m] else [])) ms2
   \<and> cpf_aggressive_loop text es [] = es
   \<and> phone_aggressive_loop text es [] = es
   \<and> (\<exists>added. cpf_aggressive_loop text es ms = es @ added
        \<and> (\<forall>e \<in> set added. \<exists>m \<in> set ms. e = cpf_aggressive_entity text m))
   \<and> (\<exists>added. phone_aggressive_loop text es ms = es @ added
        \<and> (\<forall>e \<in> set added. \<exists>m \<in> set ms. e = phone_aggressive_entity text m))
   \<and> cpf_aggressive_entity text m =
        new_Entity ''CPF'' (group text (span0 m)) (fst (span0 m)) (snd (span0 m)) 0.70
          ''regex_aggressive'' (u ''Padr'' @ [0xE3] @ u ''o agressivo de CPF detectado'')
   \<and> phone_aggressive_entity text m =
        new_Entity ''TELEFONE'' (group text (span0 m)) (fst (span0 m)) (snd (span0 m)) 0.75
          ''regex_aggressive'' (u ''Padr'' @ [0xE3] @ u ''o agressivo de telefone detectado'')
   \<and> regex_detection_aggressive re text =
        phone_aggressive_loop text
          (cpf_aggressive_loop text (map entity_of_match (find_all re text))
             (re (Inline ''cpf_aggressive'') text))
          (re (Inline ''phone_aggressive'') text)"
proof -
  have 1: "cpf_aggressive_loop text es (ms1 @ m # ms2) =
     cpf_aggressive_loop text
       (cpf_aggressive_loop text es ms1 @
          (if \<not> list_ex (\<lambda>e. e_value e = group text (span0 m))
                   (cpf_aggressive_loop text es ms1)
              \<and> 9 \<le> length (filter isdigit_char (group text (span0 m)))
              \<and> length (filter isdigit_char (group text (span0 m))) \<le> 11
           then [cpf_aggressive_entity text m] else [])) ms2"
    by (simp add: cpf_aggressive_loop_append count_digits_def Let_def)
  have 2: "phone_aggressive_loop text es (ms1 @ m # ms2) =
     phone_aggressive_loop text
       (phone_aggressive_loop text es ms1 @
          (if \<not> list_ex (\<lambda>e. e_value e = group text (span0 m))
                   (phone_aggressive_loop text es ms1)
              \<and> 8 \<le> length (filter isdigit_char (group text (span0 m)))
              \<and> length (filter isdigit_char (group text (span0 m))) \<le> 11
           then [phone_aggressive_entity text m] else [])) ms2"
    by (simp add: phone_aggressive_loop_append count_digits_def Let_def)
  have 3: "\<exists>added. cpf_aggressive_loop text es ms = es @ added
        \<and> (\<forall>e \<in> set added. \<exists>m \<in> set ms. e = cpf_aggressive_entity text m)"
    using cpf_aggressive_loop_added[of _ es ms] by blast
  have 4: "\<exists>added. phone_aggressive_loop text es ms = es @ added
        \<and> (\<forall>e \<in> set added. \<exists>m \<in> set ms. e = phone_aggressive_entity text m)"
    using phone_aggressive_loop_added[of _ es ms] by blast
  have 5: "cpf_aggressive_entity text m =
        new_Entity ''CPF'' (group text (span0 m)) (fst (span0 m)) (snd (span0 m)) 0.70
          ''regex_aggressive'' (u ''Padr'' @ [0xE3] @ u ''o agressivo de CPF detectado'')"
    by (simp add: cpf_aggressive_entity_def)
  have 6: "phone_aggressive_entity text m =
        new_Entity ''TELEFONE'' (group text (span0 m)) (fst (span0 m)) (snd (span0 m)) 0.75
          ''regex_aggressive'' (u ''Padr'' @ [0xE3] @ u ''o agressivo de telefone detectado'')"
    by (simp add: phone_aggressive_entity_def)
  have 7: "regex_detection_aggressive re text =
        phone_aggressive_loop text
          (cpf_aggressive_loop text (map entity_of_match (find_all re text))
             (re (Inline ''cpf_aggressive'') text))
          (re (Inline ''phone_aggressive'') text)"
    by (simp add: regex_detection_aggressive_def Let_def)
  have 8: "cpf_aggressive_loop text es [] = es" "phone_aggressive_loop text es [] = es"
    by simp_all
  from 1 2 3 4 5 6 7 8 show ?thesis by blast
qed

lemma phone_aggressive_group:
  "group phone_text (span0 phone_aggressive_match) = u ''61) 99999-8888''"
  by (simp add: group_def slice_def phone_text_def phone_aggressive_match_def u_def)

lemma digit_groups_strings:
  "group digit_groups_text (span0 (whole_match 0 11)) = u ''123.456.789''"
  "group digit_groups_text (span0 (whole_match 12 21)) = u ''1234-5678''"
  "group digit_groups_text (span0 (whole_match 22 30)) = u ''123-4567''"
  "group digit_groups_text (span0 (whole_match 31 43)) = u ''123456789012''"
  "group digit_groups_text (span0 (whole_match 44 53)) = u ''1234-5678''"
  by (simp_all add: group_def slice_def digit_groups_text_def whole_match_def u_def)

lemma digit_groups_counts:
  "length (filter isdigit_char (u ''61) 99999-8888'')) = 11"
  "length (filter isdigit_char (u ''123.456.789'')) = 9"
  "length (filter isdigit_char (u ''1234-5678'')) = 8"
  "length (filter isdigit_char (u ''123-4567'')) = 7"
  "length (filter isdigit_char (u ''123456789012'')) = 12"
  by (simp_all add: str_eval)

text \<open>
  In \<open>(61) 99999-8888\<close> the aggressive match starts one character after the catalogue
  hit and ends with it. The two strings differ, the match has eleven digits, and it is
  appended although the spans overlap. Of the five runs of digits, the CPF matcher takes
  the one of nine digits and refuses those of eight, seven and twelve; the telephone
  matcher takes those of nine and eight digits, refuses those of seven and twelve, and
  refuses the second occurrence of the string it has already collected.
\<close>

theorem aggressive_matchers_spec_witness:
  "phone_aggressive_loop phone_text [phone_catalogue_entity] [phone_aggressive_match] =
     [phone_catalogue_entity,
      new_Entity ''TELEFONE'' (u ''61) 99999-8888'') 1 15 0.75 ''regex_aggressive''
        (u ''Padr'' @ [0xE3] @ u ''o agressivo de telefone detectado'')]
   \<and> has_overlap phone_catalogue_entity
        (new_Entity ''TELEFONE'' (u ''61) 99999-8888'') 1 15 0.75 ''regex_aggressive''
          (u ''Padr'' @ [0xE3] @ u ''o agressivo de telefone detectado''))
   \<and> cpf_aggressive_loop digit_groups_text [] (whole_match 0 11 # digit_groups) =
       [new_Entity ''CPF'' (u ''123.456.789'') 0 11 0.7 ''regex_aggressive''
          (u ''Padr'' @ [0xE3] @ u ''o agressivo de CPF detectado'')]
   \<and> phone_aggressive_loop digit_groups_text [] (whole_match 0 11 # digit_groups) =
       [new_Entity ''TELEFONE'' (u ''123.456.789'') 0 11 0.75 ''regex_aggressive''
          (u ''Padr'' @ [0xE3] @ u ''o agressivo de telefone detectado''),
        new_Entity ''TELEFONE'' (u ''1234-5678'') 12 21 0.75 ''regex_aggressive''
          (u ''Padr'' @ [0xE3] @ u ''o agressivo de telefone detectado'')]"
proof -
  note spec1 = aggressive_matchers_spec[of phone_text "[phone_catalogue_entity]" "[]"
         phone_aggressive_match "[]"]
  note spec2 = aggressive_matchers_spec[of digit_groups_text "[]" "[]"
         "whole_match 0 11" digit_groups]
  from spec1
  have "phone_aggressive_loop phone_text [phone_catalogue_entity] ([] @ phone_aggressive_match # []) =
     phone_aggressive_loop phone_text
       (phone_aggressive_loop phone_text [phone_catalogue_entity] [] @
          (if \<not> list_ex (\<lambda>e. e_value e = group phone_text (span0 phone_aggressive_match))
                   (phone_aggressive_loop phone_text [phone_catalogue_entity] [])
              \<and> 8 \<le> length (filter isdigit_char (group phone_text (span0 phone_aggressive_match)))
              \<and> length (filter isdigit_char (group phone_text (span0 phone_aggressive_match))) \<le> 11
           then [phone_aggressive_entity phone_text phone_aggressive_match] else [])) []"
    by blast
  then have first:
    "phone_aggressive_loop phone_text [phone_catalogue_entity] [phone_aggressive_match] =
     [phone_catalogue_entity,
      new_Entity ''TELEFONE'' (u ''61) 99999-8888'') 1 15 0.75 ''regex_aggressive''
        (u ''Padr'' @ [0xE3] @ u ''o agressivo de telefone detectado'')]"
    by (simp add: phone_aggressive_group digit_groups_counts phone_aggressive_entity_def)
       (simp add: phone_catalogue_entity_def new_Entity_def u_def phone_aggressive_match_def)
  have second: "has_overlap phone_catalogue_entity
        (new_Entity ''TELEFONE'' (u ''61) 99999-8888'') 1 15 0.75 ''regex_aggressive''
          (u ''Padr'' @ [0xE3] @ u ''o agressivo de telefone detectado''))"
    by (simp add: has_overlap_def phone_catalogue_entity_def new_Entity_def)
  from spec2
  have "cpf_aggressive_loop digit_groups_text [] ([] @ whole_match 0 11 # digit_groups) =
     cpf_aggressive_loop digit_groups_text
       (cpf_aggressive_loop digit_groups_text [] [] @
          (if \<not> list_ex (\<lambda>e. e_value e = group digit_groups_text (span0 (whole_match 0 11)))
                   (cpf_aggressive_loop digit_groups_text [] [])
              \<and> 9 \<le> length (filter isdigit_char (group digit_groups_text (span0 (whole_match 0 11))))
              \<and> length (filter isdigit_char (group digit_groups_text (span0 (whole_match 0 11)))) \<le> 11
           then [cpf_aggressive_entity digit_groups_text (whole_match 0 11)] else [])) digit_groups"
    by blast
  then have "cpf_aggressive_loop digit_groups_text [] (whole_match 0 11 # digit_groups) =
     cpf_aggressive_loop digit_groups_text
       [cpf_aggressive_entity digit_groups_text (whole_match 0 11)] digit_groups"
    by (simp add: digit_groups_strings digit_groups_counts)
  then have third: "cpf_aggressive_loop digit_groups_text [] (whole_match 0 11 # digit_groups) =
       [new_Entity ''CPF'' (u ''123.456.789'') 0 11 0.7 ''regex_aggressive''
          (u ''Padr'' @ [0xE3] @ u ''o agressivo de CPF detectado'')]"
    by (simp add: digit_groups_def digit_groups_strings digit_groups_counts
          count_digits_def cpf_aggressive_entity_def Let_def)
       (simp add: whole_match_def)
  from spec2
  have "phone_aggressive_loop digit_groups_text [] ([] @ whole_match 0 11 # digit_groups) =
     phone_aggressive_loop digit_groups_text
       (phone_aggressive_loop digit_groups_text [] [] @
          (if \<not> list_ex (\<lambda>e. e_value e = group digit_groups_text (span0 (whole_match 0 11)))
                   (phone_aggressive_loop digit_groups_text [] [])
              \<and> 8 \<le> length (filter isdigit_char (group digit_groups_text (span0 (whole_match 0 11))))
              \<and> length (filter isdigit_char (group digit_groups_text (span0 (whole_match 0 11)))) \<le> 11
           then [phone_aggressive_entity digit_groups_text (whole_match 0 11)] else [])) digit_groups"
    by blast
  then have "phone_aggressive_loop digit_groups_text [] (whole_match 0 11 # digit_groups) =
     phone_aggressive_loop digit_groups_text
       [phone_aggressive_entity digit_groups_text (whole_match 0 11)] digit_groups"
    by (simp add: digit_groups_strings digit_groups_counts)
  then have fourth: "phone_aggressive_loop digit_groups_text [] (whole_match 0 11 # digit_groups) =
       [new_Entity ''TELEFONE'' (u ''123.456.789'') 0 11 0.75 ''regex_aggressive''
          (u ''Padr'' @ [0xE3] @ u ''o agressivo de telefone detectado''),
        new_Entity ''TELEFONE'' (u ''1234-5678'') 12 21 0.75 ''regex_aggressive''
          (u ''Padr'' @ [0xE3] @ u ''o agressivo de telefone detectado'')]"
    by (simp add: digit_groups_def digit_groups_strings digit_groups_counts
          count_digits_def phone_aggressive_entity_def Let_def)
       (simp add: whole_match_def new_Entity_def u_def)
  from first second third fourth show ?thesis by blast
qed

subsection \<open>Strict against precise\<close>

lemma kept_precise_strict: "kept PRECISE e = [] \<or> kept PRECISE e = kept STRICT e"
proof (cases "validators (base_type_of (e_type e))")
  case None
  then show ?thesis by (simp add: kept_def validate_entity_def)
next
  case (Some v)
  from validators_total[OF Some, of "e_value e"]
  obtain r where "v (e_value e) = Inr r" by blast
  with Some show ?thesis by (simp add: kept_def validate_entity_def Let_def)
qed

lemma apply_thresholds_append:
  "apply_thresholds th (xs @ ys) = apply_thresholds th xs @ apply_thresholds th ys"
  by (simp add: apply_thresholds_def)

lemma apply_thresholds_length_mono:
  assumes "\<forall>ty. threshold_for th1 ty \<le> threshold_for th2 ty"
  shows "length (apply_thresholds th2 es) \<le> length (apply_thresholds th1 es)"
proof -
  have "length (apply_thresholds th2 (apply_thresholds th1 es))
          \<le> length (apply_thresholds th1 es)"
    unfolding apply_thresholds_def by (rule length_filter_le)
  then show ?thesis by (simp add: apply_thresholds_idem_mono[OF assms])
qed

lemma precise_le_strict_validated:
  assumes "\<forall>ty. threshold_for th1 ty \<le> threshold_for th2 ty"
  shows "length (apply_thresholds th2 (concat (map (kept PRECISE) es)))
           \<le> length (apply_thresholds th1 (concat (map (kept STRICT) es)))"
proof (induction es)
  case Nil
  show ?case by (simp add: apply_thresholds_def)
next
  case (Cons e es)
  have "length (apply_thresholds th2 (kept PRECISE e))
          \<le> length (apply_thresholds th1 (kept STRICT e))"
  proof (cases "kept PRECISE e = []")
    case True
    then show ?thesis by (simp add: apply_thresholds_def)
  next
    case False
    with kept_precise_strict[of e] have "kept PRECISE e = kept STRICT e" by blast
    then show ?thesis using apply_thresholds_length_mono[OF assms] by simp
  qed
  with Cons show ?case by (simp add: apply_thresholds_append)
qed

lemma strict_precise_same_stages:
  "use_bert (get_config_for_mode STRICT) = use_bert (get_config_for_mode PRECISE)"
  "use_contextual (get_config_for_mode STRICT)"
  "use_contextual (get_config_for_mode PRECISE)"
  "validate_documents (get_config_for_mode STRICT)"
  "validate_documents (get_config_for_mode PRECISE)"
  "mode (get_config_for_mode STRICT) = STRICT"
  "mode (get_config_for_mode PRECISE) = PRECISE"
  by (simp_all add: get_config_for_mode_def default_config_def)

text \<open>
  C7. For every text, every behaviour of the regular-expression engine and every
  external model, the detector with the strict preset and the detector with the precise
  preset both return a result, and the strict result has at least as many entities as
  the precise one. The example text of the specification, a keyword followed by \<open>99999-8888\<close>, is one
  instance.
\<close>

theorem strict_count_ge_precise:
  "\<exists>rs rp. detect re \<lparr>config = get_config_for_mode STRICT, bert_model = b\<rparr> text = Inr rs
         \<and> detect re \<lparr>config = get_config_for_mode PRECISE, bert_model = b\<rparr> text = Inr rp
         \<and> length (entities rp) \<le> length (entities rs)
         \<and> total_entities (summary rp) \<le> total_entities (summary rs)"
proof (cases "text = [] \<or> strip text = []")
  case True
  then show ?thesis by (simp add: detect_def)
next
  case False
  let ?S = "\<lparr>config = get_config_for_mode STRICT, bert_model = b\<rparr>"
  let ?P = "\<lparr>config = get_config_for_mode PRECISE, bert_model = b\<rparr>"
  have m: "merged_entities re ?P text = merged_entities re ?S text"
    by (simp add: merged_entities_def bert_contextual_detection_def strict_precise_same_stages)
  define M where "M = anti_false_negative_filter re (merged_entities re ?S text) text"
  define fs where "fs = apply_thresholds (thresholds (get_config_for_mode STRICT))
                          (concat (map (kept STRICT) M))"
  define fp where "fp = apply_thresholds (thresholds (get_config_for_mode PRECISE))
                          (concat (map (kept PRECISE) M))"
  have le: "length fp \<le> length fs"
    unfolding fs_def fp_def by (rule precise_le_strict_validated[OF strict_le_precise])
  have ds: "detect re ?S text =
      Inr \<lparr>has_pii = (length fs > 0), entities = fs,
           summary = \<lparr>total_entities = length fs, by_type = count_by_type fs\<rparr>,
           metadata = \<lparr>text_length = length text,
                       md_mode = Some (DetectionMode_value STRICT),
                       bert_enabled = Some (b \<noteq> None)\<rparr>\<rparr>"
    using False
    by (simp add: detect_def Let_def strict_precise_same_stages validate_consistency_eq
          M_def fs_def)
  have dp: "detect re ?P text =
      Inr \<lparr>has_pii = (length fp > 0), entities = fp,
           summary = \<lparr>total_entities = length fp, by_type = count_by_type fp\<rparr>,
           metadata = \<lparr>text_length = length text,
                       md_mode = Some (DetectionMode_value PRECISE),
                       bert_enabled = Some (b \<noteq> None)\<rparr>\<rparr>"
    using False
    by (simp add: detect_def Let_def strict_precise_same_stages validate_consistency_eq
          M_def fp_def m)
  from ds dp le show ?thesis by simp
qed

subsection \<open>Overlaps\<close>

lemma has_overlap_sym: "has_overlap a b = has_overlap b a"
  by (auto simp: has_overlap_def)

lemma Match_has_overlap_sym: "Match_has_overlap a b = Match_has_overlap b a"
  by (auto simp: Match_has_overlap_def)

lemma dedup_loop_apart:
  "sorted_wrt (\<lambda>a b. \<not> Match_has_overlap a b) res
     \<Longrightarrow> sorted_wrt (\<lambda>a b. \<not> Match_has_overlap a b) (dedup_loop res ms)"
proof (induction ms arbitrary: res)
  case Nil
  then show ?case by simp
next
  case (Cons m ms)
  show ?case
  proof (cases "list_ex (\<lambda>existing. Match_has_overlap m existing) res")
    case True
    with Cons show ?thesis by simp
  next
    case False
    then have "\<forall>x \<in> set res. \<not> Match_has_overlap x m"
      by (auto simp: list_ex_iff Match_has_overlap_sym)
    with Cons.prems have "sorted_wrt (\<lambda>a b. \<not> Match_has_overlap a b) (res @ [m])"
      by (simp add: sorted_wrt_append)
    from Cons.IH[OF this] False show ?thesis by simp
  qed
qed

lemma deduplicate_matches_apart:
  "sorted_wrt (\<lambda>a b. \<not> Match_has_overlap a b) (deduplicate_matches ms)"
  using dedup_loop_apart[of "[]"] by (simp add: deduplicate_matches_def)

lemma entity_of_match_overlap:
  "has_overlap (entity_of_match a) (entity_of_match b) = Match_has_overlap a b"
  by (simp add: has_overlap_def Match_has_overlap_def entity_of_match_def new_Entity_def)

lemma find_all_entities_apart:
  "sorted_wrt (\<lambda>x y. \<not> has_overlap x y) (map entity_of_match (find_all re text))"
  using deduplicate_matches_apart[of "all_matches re text"]
  by (simp add: sorted_wrt_map entity_of_match_overlap find_all_def)

text \<open>The methods an entity can carry when the pattern stage ends.\<close>

lemma cpf_aggressive_loop_inv:
  assumes "sorted_wrt apart es"
    and "\<forall>e \<in> set es. detection_method e = ''regex'' \<or> detection_method e = ''regex_aggressive''"
  shows "sorted_wrt apart (cpf_aggressive_loop text es ms)
       \<and> (\<forall>e \<in> set (cpf_aggressive_loop text es ms).
             detection_method e = ''regex'' \<or> detection_method e = ''regex_aggressive'')"
  using assms
proof (induction ms arbitrary: es)
  case Nil
  then show ?case by simp
next
  case (Cons m ms)
  let ?n = "cpf_aggressive_entity text m"
  have meth: "detection_method ?n = ''regex_aggressive''"
    by (simp add: cpf_aggressive_entity_def new_Entity_def)
  then have "\<forall>x. apart x ?n" by (simp add: apart_def checked_pair_def)
  with Cons.prems have a: "sorted_wrt apart (es @ [?n])"
    by (simp add: sorted_wrt_append)
  from Cons.prems meth have b: "\<forall>e \<in> set (es @ [?n]).
      detection_method e = ''regex'' \<or> detection_method e = ''regex_aggressive''"
    by auto
  show ?case
    using Cons.IH[OF a b] Cons.IH[OF Cons.prems] by (simp add: Let_def)
qed

lemma phone_aggressive_loop_inv:
  assumes "sorted_wrt apart es"
    and "\<forall>e \<in> set es. detection_method e = ''regex'' \<or> detection_method e = ''regex_aggressive''"
  shows "sorted_wrt apart (phone_aggressive_loop text es ms)
       \<and> (\<forall>e \<in> set (phone_aggressive_loop text es ms).
             detection_method e = ''regex'' \<or> detection_method e = ''regex_aggressive'')"
  using assms
proof (induction ms arbitrary: es)
  case Nil
  then show ?case by simp
next
  case (Cons m ms)
  let ?n = "phone_aggressive_entity text m"
  have meth: "detection_method ?n = ''regex_aggressive''"
    by (simp add: phone_aggressive_entity_def new_Entity_def)
  then have "\<forall>x. apart x ?n" by (simp add: apart_def checked_pair_def)
  with Cons.prems have a: "sorted_wrt apart (es @ [?n])"
    by (simp add: sorted_wrt_append)
  from Cons.prems meth have b: "\<forall>e \<in> set (es @ [?n]).
      detection_method e = ''regex'' \<or> detection_method e = ''regex_aggressive''"
    by auto
  show ?case
    using Cons.IH[OF a b] Cons.IH[OF Cons.prems] by (simp add: Let_def)
qed

lemma stage1_inv:
  "sorted_wrt apart (regex_detection_aggressive re text)
   \<and> (\<forall>e \<in> set (regex_detection_aggressive re text).
         detection_method e = ''regex'' \<or> detection_method e = ''regex_aggressive'')"
proof -
  let ?c = "map entity_of_match (find_all re text)"
  have "sorted_wrt apart ?c"
    using find_all_entities_apart[of re]
    by (rule sorted_wrt_mono_rel[rotated]) (simp add: apart_def)
  moreover have "\<forall>e \<in> set ?c.
      detection_method e = ''regex'' \<or> detection_method e = ''regex_aggressive''"
    by (simp add: entity_of_match_def new_Entity_def)
  ultimately have c: "sorted_wrt apart
        (cpf_aggressive_loop text ?c (re (Inline ''cpf_aggressive'') text))
      \<and> (\<forall>e \<in> set (cpf_aggressive_loop text ?c (re (Inline ''cpf_aggressive'') text)).
             detection_method e = ''regex'' \<or> detection_method e = ''regex_aggressive'')"
    by (rule cpf_aggressive_loop_inv)
  show ?thesis
    unfolding regex_detection_aggressive_def Let_def
    by (rule phone_aggressive_loop_inv) (use c in blast)+
qed

lemma foldl_update_ex:
  "list_ex (has_overlap c) (foldl (\<lambda>rs b. update_first_overlap b rs) rs bs)
     = list_ex (has_overlap c) rs"
  by (induction bs arbitrary: rs) simp_all

lemma update_first_overlap_apart:
  assumes "sorted_wrt apart rs"
    and "\<forall>e \<in> set rs. detection_method e = ''regex'' \<or> detection_method e = ''regex_aggressive''
                         \<or> detection_method e = ''hybrid''"
  shows "sorted_wrt apart (update_first_overlap b rs)
       \<and> (\<forall>e \<in> set (update_first_overlap b rs).
             detection_method e = ''regex'' \<or> detection_method e = ''regex_aggressive''
             \<or> detection_method e = ''hybrid'')"
  using assms
proof (induction rs)
  case Nil
  then show ?case by simp
next
  case (Cons r rs)
  from Cons.prems have tl: "sorted_wrt apart rs"
    "\<forall>e \<in> set rs. detection_method e = ''regex'' \<or> detection_method e = ''regex_aggressive''
                         \<or> detection_method e = ''hybrid''"
    by simp_all
  from Cons.prems have hd: "\<forall>y \<in> set rs. apart r y" by simp
  show ?case
  proof (cases "has_overlap b r")
    case True
    let ?r = "r\<lparr>e_confidence := e_confidence b, detection_method := ''hybrid''\<rparr>"
    have "\<forall>y \<in> set rs. apart ?r y"
      using tl(2) by (auto simp: apart_def checked_pair_def)
    with True tl hd Cons.prems show ?thesis by auto
  next
    case False
    from Cons.IH[OF tl] have ih: "sorted_wrt apart (update_first_overlap b rs)"
      "\<forall>e \<in> set (update_first_overlap b rs).
             detection_method e = ''regex'' \<or> detection_method e = ''regex_aggressive''
             \<or> detection_method e = ''hybrid''"
      by blast+
    have "\<forall>y \<in> set (update_first_overlap b rs). apart r y"
    proof
      fix y assume y: "y \<in> set (update_first_overlap b rs)"
      show "apart r y"
      proof (cases "y \<in> set rs")
        case True
        with hd show ?thesis by blast
      next
        case False
        from ih(2) y have "detection_method y \<noteq> ''contextual'' \<and> detection_method y \<noteq> ''bert''"
          by auto
        moreover have "detection_method y \<noteq> ''regex''"
        proof
          assume m: "detection_method y = ''regex''"
          have "\<And>z. z \<in> set (update_first_overlap b rs) \<Longrightarrow> detection_method z = ''regex''
                   \<Longrightarrow> z \<in> set rs"
          proof -
            fix z show "z \<in> set (update_first_overlap b rs) \<Longrightarrow> detection_method z = ''regex''
                   \<Longrightarrow> z \<in> set rs"
              by (induction rs) (auto split: if_splits)
          qed
          with y m False show False by blast
        qed
        ultimately show ?thesis by (simp add: apart_def checked_pair_def)
      qed
    qed
    with False ih Cons.prems show ?thesis by auto
  qed
qed

lemma foldl_update_apart:
  assumes "sorted_wrt apart rs"
    and "\<forall>e \<in> set rs. detection_method e = ''regex'' \<or> detection_method e = ''regex_aggressive''
                         \<or> detection_method e = ''hybrid''"
  shows "sorted_wrt apart (foldl (\<lambda>rs b. update_first_overlap b rs) rs bs)
       \<and> (\<forall>e \<in> set (foldl (\<lambda>rs b. update_first_overlap b rs) rs bs).
             detection_method e = ''regex'' \<or> detection_method e = ''regex_aggressive''
             \<or> detection_method e = ''hybrid'')"
  using assms
proof (induction bs arbitrary: rs)
  case Nil
  then show ?case by simp
next
  case (Cons b bs)
  from update_first_overlap_apart[OF Cons.prems, of b]
  have "sorted_wrt apart (update_first_overlap b rs)"
    "\<forall>e \<in> set (update_first_overlap b rs).
             detection_method e = ''regex'' \<or> detection_method e = ''regex_aggressive''
             \<or> detection_method e = ''hybrid''"
    by blast+
  from Cons.IH[OF this] show ?case by simp
qed

lemma merge_detections_apart:
  assumes "sorted_wrt apart rs"
    and "\<forall>e \<in> set rs. detection_method e = ''regex'' \<or> detection_method e = ''regex_aggressive''"
    and "\<forall>b \<in> set bs. detection_method b = ''bert''"
  shows "sorted_wrt apart (merge_detections rs bs)"
proof -
  let ?rs = "foldl (\<lambda>rs b. update_first_overlap b rs) rs bs"
  let ?app = "filter (\<lambda>b. \<not> list_ex (has_overlap b) rs) bs"
  from assms(2) have m: "\<forall>e \<in> set rs. detection_method e = ''regex''
       \<or> detection_method e = ''regex_aggressive'' \<or> detection_method e = ''hybrid''"
    by blast
  from foldl_update_apart[OF assms(1) m] have 1: "sorted_wrt apart ?rs" by blast
  have 2: "sorted_wrt apart ?app"
  proof (rule sorted_wrt_filter)
    show "sorted_wrt apart bs"
    proof (rule sorted_wrt_mono_rel[of bs "\<lambda>x y. True"])
      fix x y assume "x \<in> set bs" "y \<in> set bs"
      with assms(3) show "apart x y" by (simp add: apart_def checked_pair_def)
    next
      show "sorted_wrt (\<lambda>x y. True) bs" by (induction bs) auto
    qed
  qed
  have 3: "\<forall>x \<in> set ?rs. \<forall>y \<in> set ?app. apart x y"
  proof (intro ballI)
    fix x y assume x: "x \<in> set ?rs" and y: "y \<in> set ?app"
    from y have "\<not> list_ex (has_overlap y) rs" by simp
    then have "\<not> list_ex (has_overlap y) ?rs" by (simp add: foldl_update_ex)
    with x have "\<not> has_overlap y x" by (auto simp: list_ex_iff)
    then show "apart x y" by (simp add: apart_def has_overlap_sym)
  qed
  from 1 2 3 show ?thesis
    by (simp add: merge_detections_def merge_loop_eq sorted_wrt_append)
qed

lemma bert_loop_step:
  "\<exists>added cur'. bert_loop text labels es cur (t # rest)
        = bert_loop text labels (es @ added) cur' rest
      \<and> (added = [] \<or> (\<exists>ty v s e. added = [bert_entity ty v s e]))"
proof -
  obtain p a b where t: "t = (p, a, b)" by (cases t) auto
  show ?thesis
  proof (cases "p \<noteq> 0 \<and> a \<noteq> b")
    case True
    define label where "label = (case labels p of None \<Rightarrow> u ''O'' | Some l \<Rightarrow> l)"
    show ?thesis
    proof (cases "bert_entity_type label")
      case None
      with True have "bert_loop text labels es cur (t # rest)
                        = bert_loop text labels (es @ []) cur rest"
        by (simp add: t label_def Let_def)
      then show ?thesis by blast
    next
      case (Some ety)
      show ?thesis
      proof (cases cur)
        case None
        with True Some have "bert_loop text labels es cur (t # rest)
            = bert_loop text labels (es @ []) (Some (slice text (int a) (int b), a, ety)) rest"
          by (simp add: t label_def Let_def)
        then show ?thesis by blast
      next
        case c: (Some tr)
        obtain v s ty where tr: "tr = (v, s, ty)" by (cases tr) auto
        show ?thesis
        proof (cases "startswith label (u ''B-'') \<or> ty \<noteq> ety")
          case False
          with True Some c tr have "bert_loop text labels es cur (t # rest)
              = bert_loop text labels (es @ []) (Some (v @ slice text (int a) (int b), s, ty)) rest"
            by (simp add: t label_def Let_def)
          then show ?thesis by blast
        next
          case B: True
          show ?thesis
          proof (cases "v = []")
            case True
            with B \<open>p \<noteq> 0 \<and> a \<noteq> b\<close> Some c tr have "bert_loop text labels es cur (t # rest)
              = bert_loop text labels (es @ []) (Some (slice text (int a) (int b), a, ety)) rest"
              by (simp add: t label_def Let_def)
            then show ?thesis by blast
          next
            case False
            with B \<open>p \<noteq> 0 \<and> a \<noteq> b\<close> Some c tr have "bert_loop text labels es cur (t # rest)
              = bert_loop text labels (es @ [bert_entity ty v (int s) (int a)])
                  (Some (slice text (int a) (int b), a, ety)) rest"
              by (simp add: t label_def Let_def)
            then show ?thesis by blast
          qed
        qed
      qed
    qed
  next
    case False
    show ?thesis
    proof (cases cur)
      case None
      with False have "bert_loop text labels es cur (t # rest)
                        = bert_loop text labels (es @ []) None rest"
        by (auto simp: t)
      then show ?thesis by blast
    next
      case c: (Some tr)
      obtain v s ty where tr: "tr = (v, s, ty)" by (cases tr) auto
      show ?thesis
      proof (cases "v = []")
        case True
        with False c tr have "bert_loop text labels es cur (t # rest)
                        = bert_loop text labels (es @ []) cur rest"
          by (auto simp: t)
        then show ?thesis by blast
      next
        case F: False
        with False c tr have "bert_loop text labels es cur (t # rest)
            = bert_loop text labels (es @ [bert_entity ty (strip v) (int s) (int a)]) None rest"
          by (auto simp: t)
        then show ?thesis by blast
      qed
    qed
  qed
qed

lemma bert_loop_method:
  "\<forall>b \<in> set es. detection_method b = ''bert''
     \<Longrightarrow> \<forall>b \<in> set (bert_loop text labels es cur toks). detection_method b = ''bert''"
proof (induction toks arbitrary: es cur)
  case Nil
  then show ?case by simp
next
  case (Cons t toks)
  from bert_loop_step[of _ labels es cur t toks] obtain added cur' where
    s: "bert_loop text labels es cur (t # toks) = bert_loop text labels (es @ added) cur' toks"
    and a: "added = [] \<or> (\<exists>ty v s e. added = [bert_entity ty v s e])"
    by blast
  have "\<forall>b \<in> set added. detection_method b = ''bert''"
    using a by (auto simp: bert_entity_def new_Entity_def)
  with Cons.prems have "\<forall>b \<in> set (es @ added). detection_method b = ''bert''" by auto
  from Cons.IH[OF this] s show ?case by simp
qed

lemma merged_entities_apart: "sorted_wrt apart (merged_entities re self text)"
proof -
  have b: "\<forall>b \<in> set (bert_contextual_detection self text). detection_method b = ''bert''"
  proof -
    have "\<forall>b \<in> set ([] :: Entity list). detection_method b = ''bert''" by simp
    from bert_loop_method[OF this] show ?thesis
      by (auto simp: bert_contextual_detection_def split: option.splits)
  qed
  have e: "\<forall>b \<in> set ([] :: Entity list). detection_method b = ''bert''" by simp
  from stage1_inv[of re] have s: "sorted_wrt apart (regex_detection_aggressive re text)"
    "\<forall>e \<in> set (regex_detection_aggressive re text).
         detection_method e = ''regex'' \<or> detection_method e = ''regex_aggressive''"
    by blast+
  show ?thesis
    unfolding merged_entities_def Let_def
    using merge_detections_apart[OF s b] merge_detections_apart[OF s e] by simp
qed

lemma contextual_loop_apart:
  "sorted_wrt apart es \<Longrightarrow> sorted_wrt apart (contextual_loop es ms)"
proof (induction ms arbitrary: es)
  case Nil
  then show ?case by simp
next
  case (Cons m ms)
  let ?dup = "list_ex (\<lambda>e. e_value e = c_value m \<or> has_overlap_dict m e) es"
  show ?case
  proof (cases "\<not> ?dup \<and> strip (c_value m) \<noteq> []")
    case False
    with Cons show ?thesis by (auto simp: Let_def)
  next
    case True
    then have "\<forall>e \<in> set es. \<not> has_overlap_dict m e" by (auto simp: list_ex_iff)
    then have "\<forall>e \<in> set es. apart e (contextual_entity m)"
      by (auto simp: apart_def has_overlap_def has_overlap_dict_def contextual_entity_def
            new_Entity_def)
    with Cons.prems have "sorted_wrt apart (es @ [contextual_entity m])"
      by (simp add: sorted_wrt_append)
    from Cons.IH[OF this] True show ?thesis by (simp add: Let_def)
  qed
qed

lemma number_loop_apart:
  "sorted_wrt apart es \<Longrightarrow> sorted_wrt apart (number_loop text es ms)"
proof (induction ms arbitrary: es)
  case Nil
  then show ?case by simp
next
  case (Cons m ms)
  have "\<forall>x. apart x (number_entity text m)"
    by (simp add: apart_def checked_pair_def number_entity_def new_Entity_def)
  with Cons.prems have "sorted_wrt apart (es @ [number_entity text m])"
    by (simp add: sorted_wrt_append)
  from Cons.IH[OF this] Cons.IH[OF Cons.prems] show ?case by simp
qed

lemma cpf_context_loop_apart:
  "sorted_wrt apart es \<Longrightarrow> sorted_wrt apart (cpf_context_loop text es ms)"
proof (induction ms arbitrary: es)
  case Nil
  then show ?case by simp
next
  case (Cons m ms)
  have "\<forall>x. apart x (cpf_context_entity text m)"
    by (simp add: apart_def checked_pair_def cpf_context_entity_def new_Entity_def)
  with Cons.prems have "sorted_wrt apart (es @ [cpf_context_entity text m])"
    by (simp add: sorted_wrt_append)
  from Cons.IH[OF this] Cons.IH[OF Cons.prems] show ?case by (simp add: Let_def)
qed

lemma name_loop_apart:
  "sorted_wrt apart es \<Longrightarrow> sorted_wrt apart (name_loop text es ms)"
proof (induction ms arbitrary: es)
  case Nil
  then show ?case by simp
next
  case (Cons m ms)
  have "\<forall>x. apart x (name_entity text m)"
    by (simp add: apart_def checked_pair_def name_entity_def new_Entity_def)
  with Cons.prems have "sorted_wrt apart (es @ [name_entity text m])"
    by (simp add: sorted_wrt_append)
  from Cons.IH[OF this] Cons.IH[OF Cons.prems] show ?case by (simp add: Let_def)
qed

lemma anti_false_negative_filter_apart:
  "sorted_wrt apart es \<Longrightarrow> sorted_wrt apart (anti_false_negative_filter re es text)"
  unfolding anti_false_negative_filter_def Let_def
  by (intro name_loop_apart cpf_context_loop_apart number_loop_apart contextual_loop_apart)

text \<open>Validation changes neither the span nor the method of an entity it keeps.\<close>

lemma kept_cases:
  "kept md e = [] \<or> (\<exists>e'. kept md e = [e'] \<and> e_start e' = e_start e \<and> e_end e' = e_end e
       \<and> detection_method e' = detection_method e \<and> e_type e' = e_type e
       \<and> e_value e' = e_value e)"
proof (cases "validators (base_type_of (e_type e))")
  case None
  then show ?thesis by (simp add: kept_def validate_entity_def)
next
  case (Some v)
  from validators_total[OF Some, of "e_value e"]
  obtain r where "v (e_value e) = Inr r" by blast
  with Some show ?thesis by (simp add: kept_def validate_entity_def Let_def)
qed

lemma kept_apart:
  assumes "x' \<in> set (kept md x)" "y' \<in> set (kept md y)" "apart x y"
  shows "apart x' y'"
proof -
  from kept_cases[of md x] assms(1)
  have x: "e_start x' = e_start x \<and> e_end x' = e_end x
            \<and> detection_method x' = detection_method x"
    by auto
  from kept_cases[of md y] assms(2)
  have y: "e_start y' = e_start y \<and> e_end y' = e_end y
            \<and> detection_method y' = detection_method y"
    by auto
  from x y assms(3) show ?thesis
    by (simp add: apart_def checked_pair_def has_overlap_def)
qed

lemma kept_sorted: "sorted_wrt apart (kept md e)"
  using kept_cases[of md e] by auto

lemma validated_apart:
  "sorted_wrt apart es \<Longrightarrow> sorted_wrt apart (concat (map (kept md) es))"
proof (induction es)
  case Nil
  show ?case by simp
next
  case (Cons e es)
  then have tl: "sorted_wrt apart (concat (map (kept md) es))" by simp
  from Cons.prems have hd: "\<forall>y \<in> set es. apart e y" by simp
  have "\<forall>x' \<in> set (kept md e). \<forall>y' \<in> set (concat (map (kept md) es)). apart x' y'"
    using hd by (auto intro: kept_apart)
  with tl kept_sorted[of md e] show ?case by (simp add: sorted_wrt_append)
qed

lemma detect_apart: "\<exists>r. detect re self text = Inr r \<and> sorted_wrt apart (entities r)"
proof (cases "text = [] \<or> strip text = []")
  case True
  then show ?thesis by (simp add: detect_def)
next
  case False
  define M where "M = (if use_contextual (config self)
                       then anti_false_negative_filter re (merged_entities re self text) text
                       else merged_entities re self text)"
  have M: "sorted_wrt apart M"
    unfolding M_def
    using merged_entities_apart[of re self] anti_false_negative_filter_apart by simp
  define V where "V = (if validate_documents (config self)
                       then concat (map (kept (mode (config self))) M) else M)"
  have V: "sorted_wrt apart V"
    unfolding V_def using M validated_apart by simp
  have F: "sorted_wrt apart (apply_thresholds (thresholds (config self)) V)"
    unfolding apply_thresholds_def using V by (rule sorted_wrt_filter)
  have "detect re self text =
      Inr \<lparr>has_pii = (length (apply_thresholds (thresholds (config self)) V) > 0),
           entities = apply_thresholds (thresholds (config self)) V,
           summary = \<lparr>total_entities = length (apply_thresholds (thresholds (config self)) V),
                      by_type = count_by_type (apply_thresholds (thresholds (config self)) V)\<rparr>,
           metadata = \<lparr>text_length = length text,
                       md_mode = Some (DetectionMode_value (mode (config self))),
                       bert_enabled = Some (bert_model self \<noteq> None)\<rparr>\<rparr>"
    using False
    by (simp add: detect_def Let_def validate_consistency_eq M_def V_def)
  with F show ?thesis by simp
qed

text \<open>
  C1, as the code has it. After fusion and in the returned list, two entities of which the
  later one came from the contextual catalogue, or of which the later one is a hit of the
  external model and the earlier one is not, or which are both catalogue hits with the
  method \<open>regex\<close>, have disjoint spans, whatever their types. Nothing is promised for a
  pair with an entity added by an aggressive matcher or by one of the three hardwired
  anti-false-negative expressions, with a \<open>hybrid\<close> entity, or of two model hits.
\<close>

theorem checked_pairs_are_disjoint:
  "(\<forall>i j. i < j \<and> j < length (merged_entities re self text)
           \<and> checked_pair (merged_entities re self text ! i) (merged_entities re self text ! j)
        \<longrightarrow> \<not> has_overlap (merged_entities re self text ! i)
                            (merged_entities re self text ! j))
   \<and> (\<exists>r. detect re self text = Inr r
         \<and> (\<forall>i j. i < j \<and> j < length (entities r)
                  \<and> checked_pair (entities r ! i) (entities r ! j)
               \<longrightarrow> \<not> has_overlap (entities r ! i) (entities r ! j)))"
proof -
  have 1: "\<forall>i j. i < j \<and> j < length (merged_entities re self text)
           \<and> checked_pair (merged_entities re self text ! i) (merged_entities re self text ! j)
        \<longrightarrow> \<not> has_overlap (merged_entities re self text ! i)
                            (merged_entities re self text ! j)"
    using merged_entities_apart[of re self]
    by (auto simp: sorted_wrt_iff_nth_less apart_def)
  from detect_apart[of re self] obtain r where
    r: "detect re self text = Inr r" "sorted_wrt apart (entities r)"
    by blast
  from r(2) have "\<forall>i j. i < j \<and> j < length (entities r)
                  \<and> checked_pair (entities r ! i) (entities r ! j)
               \<longrightarrow> \<not> has_overlap (entities r ! i) (entities r ! j)"
    by (auto simp: sorted_wrt_iff_nth_less apart_def)
  with 1 r(1) show ?thesis by blast
qed

subsection \<open>The pipeline on two texts\<close>

lemmas catalogue_defs = compile_all_patterns_def all_pattern_lists_def add_compiled_def
  CPF_PATTERNS_def CNPJ_PATTERNS_def PHONE_PATTERNS_def EMAIL_PATTERNS_def CEP_PATTERNS_def
  RG_PATTERNS_def CNH_PATTERNS_def TITULO_ELEITOR_PATTERNS_def PIS_PASEP_PATTERNS_def
  CARTAO_CREDITO_PATTERNS_def DATA_NASCIMENTO_PATTERNS_def PLACA_VEICULO_PATTERNS_def
  PASSAPORTE_PATTERNS_def

lemmas contextual_defs = find_contextual_def pattern_groups_def CPF_CONTEXTUAL_def
  PHONE_CONTEXTUAL_def EMAIL_CONTEXTUAL_def ADDRESS_CONTEXTUAL_def NAME_CONTEXTUAL_def

lemma balanced_config:
  "use_contextual (config balanced_detector)"
  "validate_documents (config balanced_detector)"
  "mode (config balanced_detector) = BALANCED"
  "bert_model balanced_detector = None"
  by (simp_all add: balanced_detector_def get_config_for_mode_def default_config_def)

lemma phone_text_all_matches:
  "all_matches phone_text_engine phone_text =
     [\<lparr>m_type = ''TELEFONE'', m_value = u ''(61) 99999-8888'', m_start = 0, m_end = 15,
       m_confidence = 0.85, m_description = u ''Telefone com DDD'',
       m_requires_validation = False, m_priority = 1\<rparr>,
      \<lparr>m_type = ''TELEFONE'', m_value = u ''99999-8888'', m_start = 5, m_end = 15,
       m_confidence = 0.6, m_description = u ''Telefone sem DDD'',
       m_requires_validation = False, m_priority = 3\<rparr>,
      \<lparr>m_type = ''CELULAR'', m_value = u ''61) 99999-8888'', m_start = 1, m_end = 15,
       m_confidence = 0.9, m_description = u ''Celular com DDI opcional'',
       m_requires_validation = False, m_priority = 1\<rparr>]"
  by (simp add: all_matches_def catalogue_defs pattern_matches_def phone_text_engine_def
        whole_match_def group_def slice_def)
     (simp add: phone_text_def u_def)

lemma phone_text_find_all:
  "find_all phone_text_engine phone_text =
     [\<lparr>m_type = ''TELEFONE'', m_value = u ''(61) 99999-8888'', m_start = 0, m_end = 15,
       m_confidence = 0.85, m_description = u ''Telefone com DDD'',
       m_requires_validation = False, m_priority = 1\<rparr>]"
  by (simp add: find_all_def phone_text_all_matches deduplicate_matches_def
        Match_has_overlap_def)

lemma phone_text_stage1:
  "regex_detection_aggressive phone_text_engine phone_text = phone_stage1"
  by (simp add: regex_detection_aggressive_def phone_text_find_all entity_of_match_def
        phone_catalogue_entity_def phone_text_engine_def whole_match_def Let_def
        phone_aggressive_entity_def group_def slice_def phone_stage1_def)
     (simp add: phone_text_def new_Entity_def count_digits_def str_eval)

lemma phone_text_merged:
  "merged_entities phone_text_engine balanced_detector phone_text = phone_stage1"
  by (simp add: merged_entities_def balanced_detector_def phone_text_stage1
        merge_detections_def)

lemma phone_text_anti_fn:
  "anti_false_negative_filter phone_text_engine phone_stage1 phone_text = phone_stage1"
  by (simp add: anti_false_negative_filter_def contextual_defs Let_def phone_text_engine_def)

lemma phone_results:
  "PhoneValidator_validate (u ''(61) 99999-8888'') =
     Inr \<lparr>is_valid = True, confidence = 0.9,
          message = phone_msg_valid (u ''celular'') 61,
          cleaned_value = Some (u ''61999998888'')\<rparr>"
  "PhoneValidator_validate (u ''61) 99999-8888'') =
     Inr \<lparr>is_valid = True, confidence = 0.9,
          message = phone_msg_valid (u ''celular'') 61,
          cleaned_value = Some (u ''61999998888'')\<rparr>"
  by (simp_all add: phone_eval str_eval)

lemma phone_text_not_blank: "phone_text \<noteq> [] \<and> strip phone_text \<noteq> []"
  by (simp add: phone_text_def strip_def isspace_char_def in_ranges_def space_ranges_def u_def)

lemma phone_text_detect:
  "detect phone_text_engine balanced_detector phone_text =
     Inr \<lparr>has_pii = True, entities = phone_final,
          summary = \<lparr>total_entities = 2, by_type = [(''TELEFONE'', 2)]\<rparr>,
          metadata = \<lparr>text_length = 15, md_mode = Some ''balanced'',
                      bert_enabled = Some False\<rparr>\<rparr>"
proof -
  have v: "validate_consistency BALANCED phone_stage1 = Inr phone_final"
    by (simp add: validate_entity_def phone_stage1_def phone_catalogue_entity_def new_Entity_def
          base_type_of_def validators_def phone_results phone_final_def)
       (simp add: u_def)
  have th: "apply_thresholds (thresholds (config balanced_detector)) phone_final = phone_final"
    by (simp add: apply_thresholds_def phone_final_def threshold_for_def balanced_detector_def
          get_config_for_mode_def default_config_def base_type_of_def)
  have cnt: "count_by_type phone_final = [(''TELEFONE'', 2)]"
    by (simp add: count_by_type_def phone_final_def bump_def base_type_of_def)
  have len: "length phone_final = 2" "length phone_text = 15"
    by (simp_all add: phone_final_def phone_text_def u_def)
  have ne: "phone_final \<noteq> []"
    by (simp add: phone_final_def)
  show ?thesis
    using phone_text_not_blank ne
    by (simp add: detect_def balanced_config phone_text_merged phone_text_anti_fn v th cnt len
          Let_def)
qed

lemma multi_text_find_all:
  "map entity_of_match (find_all multi_text_engine multi_text) = multi_stage1"
  by (simp add: find_all_def all_matches_def catalogue_defs pattern_matches_def
        multi_text_engine_def whole_match_def group_def slice_def deduplicate_matches_def
        Match_has_overlap_def entity_of_match_def multi_stage1_def)
     (simp add: multi_text_def u_def)

lemma multi_text_stage1:
  "regex_detection_aggressive multi_text_engine multi_text = multi_stage1"
  by (simp add: regex_detection_aggressive_def multi_text_find_all Let_def)
     (simp add: multi_text_engine_def whole_match_def group_def slice_def multi_stage1_def
        new_Entity_def multi_text_def u_def)

lemma multi_text_merged:
  "merged_entities multi_text_engine balanced_detector multi_text = multi_stage1"
  by (simp add: merged_entities_def balanced_detector_def multi_text_stage1
        merge_detections_def)

lemma multi_text_contextual:
  "find_contextual multi_text_engine multi_text =
     [\<lparr>c_type = ''CPF_CONTEXTUAL'', c_value = u ''123.456.789-09'', c_start = 5, c_end = 19,
       c_confidence = 0.92, c_full_context = u ''CPF: 123.456.789-09''\<rparr>,
      \<lparr>c_type = ''EMAIL_CONTEXTUAL'', c_value = u ''a@b.com'', c_start = 28, c_end = 35,
       c_confidence = 0.95, c_full_context = u '' Email: a@b.com''\<rparr>]"
  by (simp add: contextual_defs multi_text_engine_def group_def slice_def)
     (simp add: multi_text_def u_def strip_def isspace_char_def in_ranges_def space_ranges_def)

lemma multi_text_anti_fn:
  "anti_false_negative_filter multi_text_engine multi_stage1 multi_text = multi_stage1"
  by (simp add: anti_false_negative_filter_def multi_text_contextual Let_def)
     (simp add: multi_stage1_def new_Entity_def multi_text_engine_def group_def slice_def
        multi_text_def u_def strip_def isspace_char_def in_ranges_def space_ranges_def)

lemma multi_results:
  "CPFValidator_validate (u ''123.456.789-09'') =
     Inr \<lparr>is_valid = True, confidence = 0.98, message = cpf_msg_valid,
          cleaned_value = Some (u ''12345678909'')\<rparr>"
  "EmailValidator_validate (u ''a@b.com'') =
     Inr \<lparr>is_valid = True, confidence = 0.95, message = email_msg_valid,
          cleaned_value = Some (u ''a@b.com'')\<rparr>"
  by (simp add: cpf_eval str_eval)
     (simp add: email_eval COMMON_TLDS_def endswith_def)

lemma multi_text_not_blank: "multi_text \<noteq> [] \<and> strip multi_text \<noteq> []"
  by (simp add: multi_text_def strip_def isspace_char_def in_ranges_def space_ranges_def u_def)

lemma multi_text_detect:
  "detect multi_text_engine balanced_detector multi_text =
     Inr \<lparr>has_pii = True, entities = multi_final,
          summary = \<lparr>total_entities = 2, by_type = [(''CPF'', 1), (''EMAIL'', 1)]\<rparr>,
          metadata = \<lparr>text_length = 35, md_mode = Some ''balanced'',
                      bert_enabled = Some False\<rparr>\<rparr>"
proof -
  have v: "validate_consistency BALANCED multi_stage1 = Inr multi_final"
    by (simp add: validate_entity_def multi_stage1_def new_Entity_def
          base_type_of_def validators_def multi_results multi_final_def)
       (simp add: u_def)
  have th: "apply_thresholds (thresholds (config balanced_detector)) multi_final = multi_final"
    by (simp add: apply_thresholds_def multi_final_def threshold_for_def balanced_detector_def
          get_config_for_mode_def default_config_def base_type_of_def)
  have cnt: "count_by_type multi_final = [(''CPF'', 1), (''EMAIL'', 1)]"
    by (simp add: count_by_type_def multi_final_def bump_def base_type_of_def)
  have len: "length multi_final = 2" "length multi_text = 35"
    by (simp_all add: multi_final_def multi_text_def u_def)
  have ne: "multi_final \<noteq> []"
    by (simp add: multi_final_def)
  show ?thesis
    using multi_text_not_blank ne
    by (simp add: detect_def balanced_config multi_text_merged multi_text_anti_fn v th cnt len
          Let_def)
qed

text \<open>
  In \<open>CPF: 123.456.789-09, Email: a@b.com\<close> the two returned entities are catalogue hits
  with the method \<open>regex\<close>; the theorem says that they are disjoint, and they are.
\<close>

theorem checked_pairs_are_disjoint_witness:
  "detect multi_text_engine balanced_detector multi_text =
     Inr \<lparr>has_pii = True, entities = multi_final,
          summary = \<lparr>total_entities = 2, by_type = [(''CPF'', 1), (''EMAIL'', 1)]\<rparr>,
          metadata = \<lparr>text_length = 35, md_mode = Some ''balanced'',
                      bert_enabled = Some False\<rparr>\<rparr>
   \<and> checked_pair (multi_final ! 0) (multi_final ! 1)
   \<and> \<not> has_overlap (multi_final ! 0) (multi_final ! 1)"
proof -
  have c: "checked_pair (multi_final ! 0) (multi_final ! 1)"
    by (simp add: checked_pair_def multi_final_def)
  from checked_pairs_are_disjoint[of multi_text_engine balanced_detector multi_text]
  obtain r where r: "detect multi_text_engine balanced_detector multi_text = Inr r"
    "\<forall>i j. i < j \<and> j < length (entities r) \<and> checked_pair (entities r ! i) (entities r ! j)
               \<longrightarrow> \<not> has_overlap (entities r ! i) (entities r ! j)"
    by blast
  from r(1) have e: "entities r = multi_final" by (auto simp: multi_text_detect)
  have "(0::nat) < 1 \<and> 1 < length multi_final" by (simp add: multi_final_def)
  with r(2) e c have "\<not> has_overlap (multi_final ! 0) (multi_final ! 1)" by metis
  with c multi_text_detect show ?thesis by blast
qed

text \<open>
  The claim as written fails on \<open>(61) 99999-8888\<close>. The first telephone expression of the
  catalogue matches the whole text; \<open>phone_aggressive\<close> matches it from the second
  character on, a different string, so the match is added. After fusion and in the result
  there are two entities of type \<open>TELEFONE\<close> whose spans intersect, and neither is
  \<open>hybrid\<close>.
\<close>

theorem same_type_overlap_counterexample:
  "merged_entities phone_text_engine balanced_detector phone_text = phone_stage1
   \<and> detect phone_text_engine balanced_detector phone_text =
     Inr \<lparr>has_pii = True, entities = phone_final,
          summary = \<lparr>total_entities = 2, by_type = [(''TELEFONE'', 2)]\<rparr>,
          metadata = \<lparr>text_length = 15, md_mode = Some ''balanced'',
                      bert_enabled = Some False\<rparr>\<rparr>
   \<and> base_type_of (e_type (phone_stage1 ! 0)) = base_type_of (e_type (phone_stage1 ! 1))
   \<and> has_overlap (phone_stage1 ! 0) (phone_stage1 ! 1)
   \<and> detection_method (phone_stage1 ! 0) \<noteq> ''hybrid''
   \<and> detection_method (phone_stage1 ! 1) \<noteq> ''hybrid''
   \<and> base_type_of (e_type (phone_final ! 0)) = base_type_of (e_type (phone_final ! 1))
   \<and> has_overlap (phone_final ! 0) (phone_final ! 1)
   \<and> detection_method (phone_final ! 0) \<noteq> ''hybrid''
   \<and> detection_method (phone_final ! 1) \<noteq> ''hybrid''"
proof -
  have s: "base_type_of (e_type (phone_stage1 ! 0)) = base_type_of (e_type (phone_stage1 ! 1))
   \<and> has_overlap (phone_stage1 ! 0) (phone_stage1 ! 1)
   \<and> detection_method (phone_stage1 ! 0) \<noteq> ''hybrid''
   \<and> detection_method (phone_stage1 ! 1) \<noteq> ''hybrid''"
    by (simp add: phone_stage1_def phone_catalogue_entity_def new_Entity_def has_overlap_def)
  have f: "base_type_of (e_type (phone_final ! 0)) = base_type_of (e_type (phone_final ! 1))
   \<and> has_overlap (phone_final ! 0) (phone_final ! 1)
   \<and> detection_method (phone_final ! 0) \<noteq> ''hybrid''
   \<and> detection_method (phone_final ! 1) \<noteq> ''hybrid''"
    by (simp add: phone_final_def has_overlap_def)
  from phone_text_merged phone_text_detect s f show ?thesis by blast
qed

subsection \<open>Spans and confidences\<close>

lemma add_compiled_configs:
  "(\<Union>(ty, ps) \<in> set (add_compiled d c). set ps) = insert c (\<Union>(ty, ps) \<in> set d. set ps)"
  by (auto simp: add_compiled_def split: if_splits)

lemma foldl_add_compiled_configs:
  "(\<Union>(ty, ps) \<in> set (foldl add_compiled d cs). set ps)
     = set cs \<union> (\<Union>(ty, ps) \<in> set d. set ps)"
  by (induction cs arbitrary: d) (simp_all add: add_compiled_configs)

lemma listed_confidences:
  "\<forall>c \<in> set (concat all_pattern_lists). 0 \<le> pc_min_confidence c \<and> pc_min_confidence c \<le> 1"
  by (simp add: all_pattern_lists_def CPF_PATTERNS_def CNPJ_PATTERNS_def PHONE_PATTERNS_def
        EMAIL_PATTERNS_def CEP_PATTERNS_def RG_PATTERNS_def CNH_PATTERNS_def
        TITULO_ELEITOR_PATTERNS_def PIS_PASEP_PATTERNS_def CARTAO_CREDITO_PATTERNS_def
        DATA_NASCIMENTO_PATTERNS_def PLACA_VEICULO_PATTERNS_def PASSAPORTE_PATTERNS_def)

lemma catalogue_confidences:
  "\<forall>(ty, ps) \<in> set compile_all_patterns.
      \<forall>c \<in> set ps. 0 \<le> pc_min_confidence c \<and> pc_min_confidence c \<le> 1"
proof -
  have "(\<Union>(ty, ps) \<in> set compile_all_patterns. set ps) = set (concat all_pattern_lists)"
    unfolding compile_all_patterns_def by (simp add: foldl_add_compiled_configs)
  with listed_confidences show ?thesis by blast
qed


lemma contextual_confidences:
  "\<forall>(ty, ps) \<in> set pattern_groups. \<forall>(p, c) \<in> set ps. 0 \<le> c \<and> c \<le> (1::real)"
  by (simp add: pattern_groups_def CPF_CONTEXTUAL_def PHONE_CONTEXTUAL_def
        EMAIL_CONTEXTUAL_def ADDRESS_CONTEXTUAL_def NAME_CONTEXTUAL_def)

lemma all_matches_in_text:
  assumes "engine_in_text re text" and "m \<in> set (all_matches re text)"
  shows "0 \<le> m_start m \<and> m_start m < m_end m \<and> m_end m \<le> int (length text)
         \<and> 0 \<le> m_confidence m \<and> m_confidence m \<le> 1"
proof -
  from assms(2) obtain ty ps c rm where
    p: "(ty, ps) \<in> set compile_all_patterns" "c \<in> set ps" "rm \<in> set (re (pattern c) text)"
    and m: "m = \<lparr>m_type = PIIType_value ty, m_value = group text (span0 rm),
                 m_start = fst (span0 rm), m_end = snd (span0 rm),
                 m_confidence = pc_min_confidence c, m_description = description c,
                 m_requires_validation = requires_validation c,
                 m_priority = priority c\<rparr>"
    by (auto simp: all_matches_def pattern_matches_def)
  from assms(1) p(3) have "span_in text (span0 rm)" by (simp add: engine_in_text_def)
  moreover from catalogue_confidences p(1,2)
  have "0 \<le> pc_min_confidence c \<and> pc_min_confidence c \<le> 1" by blast
  ultimately show ?thesis using m by (simp add: span_in_def)
qed

lemma dedup_loop_subset: "set (dedup_loop res ms) \<subseteq> set res \<union> set ms"
proof (induction ms arbitrary: res)
  case Nil
  show ?case by simp
next
  case (Cons m ms)
  show ?case using Cons[of res] Cons[of "res @ [m]"] by auto
qed

lemma deduplicate_matches_subset: "set (deduplicate_matches ms) \<subseteq> set ms"
  using dedup_loop_subset[of "[]" "sort_key (\<lambda>x. (m_start x, - m_confidence x)) ms"]
  by (auto simp: deduplicate_matches_def)

lemma find_all_in_text:
  assumes "engine_in_text re text"
  shows "\<forall>e \<in> set (map entity_of_match (find_all re text)). entity_in_text text e"
proof
  fix e assume "e \<in> set (map entity_of_match (find_all re text))"
  then obtain m where m: "m \<in> set (find_all re text)" "e = entity_of_match m" by auto
  from m(1) deduplicate_matches_subset have "m \<in> set (all_matches re text)"
    by (auto simp: find_all_def)
  from all_matches_in_text[OF assms this] m(2) show "entity_in_text text e"
    by (simp add: entity_in_text_def entity_of_match_def new_Entity_def)
qed

lemma cpf_aggressive_loop_in_text:
  assumes "\<forall>m \<in> set ms. span_in text (span0 m)" and "\<forall>e \<in> set es. entity_in_text text e"
  shows "\<forall>e \<in> set (cpf_aggressive_loop text es ms). entity_in_text text e"
proof -
  from cpf_aggressive_loop_added[of _ es ms] obtain added where
    a: "cpf_aggressive_loop text es ms = es @ added"
       "\<forall>e \<in> set added. \<exists>m \<in> set ms. e = cpf_aggressive_entity text m"
    by blast
  have "\<forall>m \<in> set ms. entity_in_text text (cpf_aggressive_entity text m)"
    using assms(1)
    by (simp add: entity_in_text_def cpf_aggressive_entity_def new_Entity_def span_in_def)
  with a assms(2) show ?thesis by auto
qed

lemma phone_aggressive_loop_in_text:
  assumes "\<forall>m \<in> set ms. span_in text (span0 m)" and "\<forall>e \<in> set es. entity_in_text text e"
  shows "\<forall>e \<in> set (phone_aggressive_loop text es ms). entity_in_text text e"
proof -
  from phone_aggressive_loop_added[of _ es ms] obtain added where
    a: "phone_aggressive_loop text es ms = es @ added"
       "\<forall>e \<in> set added. \<exists>m \<in> set ms. e = phone_aggressive_entity text m"
    by blast
  have "\<forall>m \<in> set ms. entity_in_text text (phone_aggressive_entity text m)"
    using assms(1)
    by (simp add: entity_in_text_def phone_aggressive_entity_def new_Entity_def span_in_def)
  with a assms(2) show ?thesis by auto
qed

lemma stage1_in_text:
  assumes "engine_in_text re text"
  shows "\<forall>e \<in> set (regex_detection_aggressive re text). entity_in_text text e"
proof -
  from assms have s: "\<And>r. \<forall>m \<in> set (re r text). span_in text (span0 m)"
    by (simp add: engine_in_text_def)
  have c: "\<forall>e \<in> set (map entity_of_match (find_all re text)). entity_in_text text e"
    by (rule find_all_in_text[OF assms])
  have d: "\<forall>e \<in> set (cpf_aggressive_loop text (map entity_of_match (find_all re text))
                        (re (Inline ''cpf_aggressive'') text)). entity_in_text text e"
    by (rule cpf_aggressive_loop_in_text[OF s c])
  show ?thesis
    unfolding regex_detection_aggressive_def Let_def
    by (rule phone_aggressive_loop_in_text[OF s d])
qed

lemma update_first_overlap_in_text:
  assumes "entity_in_text text b" and "\<forall>e \<in> set rs. entity_in_text text e"
  shows "\<forall>e \<in> set (update_first_overlap b rs). entity_in_text text e"
  using assms(2)
proof (induction rs)
  case Nil
  then show ?case by simp
next
  case (Cons r rs)
  from Cons.prems have r: "entity_in_text text r" and rs: "\<forall>e \<in> set rs. entity_in_text text e"
    by simp_all
  from r assms(1)
  have u: "entity_in_text text (r\<lparr>e_confidence := e_confidence b, detection_method := ''hybrid''\<rparr>)"
    by (simp add: entity_in_text_def)
  from Cons.IH[OF rs] r rs u show ?case by simp
qed


lemma foldl_update_in_text:
  assumes "\<forall>b \<in> set bs. entity_in_text text b" and "\<forall>e \<in> set rs. entity_in_text text e"
  shows "\<forall>e \<in> set (foldl (\<lambda>rs b. update_first_overlap b rs) rs bs). entity_in_text text e"
  using assms
proof (induction bs arbitrary: rs)
  case Nil
  then show ?case by simp
next
  case (Cons b bs)
  from Cons.prems have b: "entity_in_text text b" and bs: "\<forall>b \<in> set bs. entity_in_text text b"
    by simp_all
  have "\<forall>e \<in> set (update_first_overlap b rs). entity_in_text text e"
    by (rule update_first_overlap_in_text[OF b Cons.prems(2)])
  from Cons.IH[OF bs this] show ?case by simp
qed

lemma merged_entities_in_text:
  assumes "engine_in_text re text"
    and "bert_model self = None \<or> \<not> use_bert (config self)"
  shows "\<forall>e \<in> set (merged_entities re self text). entity_in_text text e"
proof -
  define bs where "bs = (if use_bert (config self) \<and> bert_model self \<noteq> None
                          then bert_contextual_detection self text else [])"
  from assms(2) have "bs = []" by (auto simp: bs_def)
  then have bs: "\<forall>e \<in> set bs. entity_in_text text e" by simp
  have "\<forall>e \<in> set (merge_detections (regex_detection_aggressive re text) bs).
          entity_in_text text e"
    using foldl_update_in_text[OF bs stage1_in_text[OF assms(1)]] bs
    by (auto simp: merge_detections_def merge_loop_eq)
  then show ?thesis by (simp add: merged_entities_def bs_def Let_def)
qed

lemma find_contextual_in_text:
  assumes "engine_in_text re text" and "c \<in> set (find_contextual re text)"
  shows "entity_in_text text (contextual_entity c)"
proof -
  from assms(2) obtain ty ps p conf rm where
    p: "(ty, ps) \<in> set pattern_groups" "(p, conf) \<in> set ps" "rm \<in> set (re p text)"
    and c: "c_start c = fst (span1 rm)" "c_end c = snd (span1 rm)" "c_confidence c = conf"
    by (auto simp: find_contextual_def)
  from p(1,2) have "p \<in> set contextual_regexes"
    by (force simp: contextual_regexes_def)
  with assms(1) p(3) have "span_in text (span1 rm)" by (simp add: engine_in_text_def)
  moreover from contextual_confidences p(1,2) have "0 \<le> conf \<and> conf \<le> 1" by blast
  ultimately show ?thesis using c
    by (simp add: entity_in_text_def contextual_entity_def new_Entity_def span_in_def)
qed

lemma contextual_loop_in_text:
  assumes "\<forall>c \<in> set ms. entity_in_text text (contextual_entity c)"
    and "\<forall>e \<in> set es. entity_in_text text e"
  shows "\<forall>e \<in> set (contextual_loop es ms). entity_in_text text e"
  using assms
proof (induction ms arbitrary: es)
  case Nil
  then show ?case by simp
next
  case (Cons m ms)
  from Cons.prems have 1: "\<forall>c \<in> set ms. entity_in_text text (contextual_entity c)" by simp
  from Cons.prems have 2: "\<forall>e \<in> set (es @ [contextual_entity m]). entity_in_text text e"
    by simp
  from Cons.prems have 3: "\<forall>e \<in> set es. entity_in_text text e" by simp
  show ?case
    using Cons.IH[OF 1 2] Cons.IH[OF 1 3] by (simp add: Let_def)
qed

lemma number_loop_in_text:
  assumes "\<forall>m \<in> set ms. span_in text (span2 m)" and "\<forall>e \<in> set es. entity_in_text text e"
  shows "\<forall>e \<in> set (number_loop text es ms). entity_in_text text e"
  using assms
proof (induction ms arbitrary: es)
  case Nil
  then show ?case by simp
next
  case (Cons m ms)
  from Cons.prems have 1: "\<forall>m \<in> set ms. span_in text (span2 m)" by simp
  from Cons.prems have 2: "\<forall>e \<in> set (es @ [number_entity text m]). entity_in_text text e"
    by (simp add: entity_in_text_def number_entity_def new_Entity_def span_in_def)
  from Cons.prems have 3: "\<forall>e \<in> set es. entity_in_text text e" by simp
  show ?case
    using Cons.IH[OF 1 2] Cons.IH[OF 1 3] by simp
qed

lemma cpf_context_loop_in_text:
  assumes "\<forall>m \<in> set ms. span_in text (span2 m)" and "\<forall>e \<in> set es. entity_in_text text e"
  shows "\<forall>e \<in> set (cpf_context_loop text es ms). entity_in_text text e"
  using assms
proof (induction ms arbitrary: es)
  case Nil
  then show ?case by simp
next
  case (Cons m ms)
  from Cons.prems have 1: "\<forall>m \<in> set ms. span_in text (span2 m)" by simp
  from Cons.prems have 2: "\<forall>e \<in> set (es @ [cpf_context_entity text m]). entity_in_text text e"
    by (simp add: entity_in_text_def cpf_context_entity_def new_Entity_def span_in_def)
  from Cons.prems have 3: "\<forall>e \<in> set es. entity_in_text text e" by simp
  show ?case
    using Cons.IH[OF 1 2] Cons.IH[OF 1 3] by (simp add: Let_def)
qed

lemma name_loop_in_text:
  assumes "\<forall>m \<in> set ms. span_in text (span2 m)" and "\<forall>e \<in> set es. entity_in_text text e"
  shows "\<forall>e \<in> set (name_loop text es ms). entity_in_text text e"
  using assms
proof (induction ms arbitrary: es)
  case Nil
  then show ?case by simp
next
  case (Cons m ms)
  from Cons.prems have 1: "\<forall>m \<in> set ms. span_in text (span2 m)" by simp
  from Cons.prems have 2: "\<forall>e \<in> set (es @ [name_entity text m]). entity_in_text text e"
    by (simp add: entity_in_text_def name_entity_def new_Entity_def span_in_def)
  from Cons.prems have 3: "\<forall>e \<in> set es. entity_in_text text e" by simp
  show ?case
    using Cons.IH[OF 1 2] Cons.IH[OF 1 3] by (simp add: Let_def)
qed

lemma anti_false_negative_filter_in_text:
  assumes "engine_in_text re text" and "\<forall>e \<in> set es. entity_in_text text e"
  shows "\<forall>e \<in> set (anti_false_negative_filter re es text). entity_in_text text e"
proof -
  from assms(1) have g:
    "\<forall>m \<in> set (re (Inline ''number_pattern'') text). span_in text (span2 m)"
    "\<forall>m \<in> set (re (Inline ''cpf_context'') text). span_in text (span2 m)"
    "\<forall>m \<in> set (re (Inline ''name_keywords'') text). span_in text (span2 m)"
    by (simp_all add: engine_in_text_def)
  have c: "\<forall>c \<in> set (find_contextual re text). entity_in_text text (contextual_entity c)"
    using find_contextual_in_text[OF assms(1)] by blast
  have 1: "\<forall>e \<in> set (contextual_loop es (find_contextual re text)). entity_in_text text e"
    by (rule contextual_loop_in_text[OF c assms(2)])
  have 2: "\<forall>e \<in> set (number_loop text (contextual_loop es (find_contextual re text))
                        (re (Inline ''number_pattern'') text)). entity_in_text text e"
    by (rule number_loop_in_text[OF g(1) 1])
  have 3: "\<forall>e \<in> set (cpf_context_loop text
                        (number_loop text (contextual_loop es (find_contextual re text))
                           (re (Inline ''number_pattern'') text))
                        (re (Inline ''cpf_context'') text)). entity_in_text text e"
    by (rule cpf_context_loop_in_text[OF g(2) 2])
  show ?thesis
    unfolding anti_false_negative_filter_def Let_def
    by (rule name_loop_in_text[OF g(3) 3])
qed

lemma CPFValidator_confidence:
  "CPFValidator_validate s = Inr r \<Longrightarrow> is_valid r \<Longrightarrow> confidence r \<le> 1"
  unfolding CPFValidator_validate_def Let_def int_each_clean index_def
  by (auto split: if_splits)

lemma CNPJValidator_confidence:
  "CNPJValidator_validate s = Inr r \<Longrightarrow> is_valid r \<Longrightarrow> confidence r \<le> 1"
  unfolding CNPJValidator_validate_def Let_def int_each_clean index_def
  by (auto split: if_splits)

lemma PhoneValidator_confidence:
  "PhoneValidator_validate s = Inr r \<Longrightarrow> is_valid r \<Longrightarrow> confidence r \<le> 1"
  unfolding PhoneValidator_validate_def Let_def
  by (auto split: if_splits sum.splits)

lemma EmailValidator_confidence:
  "EmailValidator_validate s = Inr r \<Longrightarrow> is_valid r \<Longrightarrow> confidence r \<le> 1"
  unfolding EmailValidator_validate_def Let_def
  by (auto split: if_splits sum.splits prod.splits)

lemma CEPValidator_confidence:
  "CEPValidator_validate s = Inr r \<Longrightarrow> is_valid r \<Longrightarrow> confidence r \<le> 1"
  unfolding CEPValidator_validate_def Let_def
  by (auto split: if_splits sum.splits)

lemma valid_confidence_le_1:
  assumes "validators ty = Some v" and "v s = Inr r" and "is_valid r"
  shows "confidence r \<le> 1"
proof -
  from assms(1) have "v = CPFValidator_validate \<or> v = CNPJValidator_validate
      \<or> v = PhoneValidator_validate \<or> v = EmailValidator_validate
      \<or> v = CEPValidator_validate"
    by (auto simp: validators_def split: if_splits)
  with assms(2,3) CPFValidator_confidence CNPJValidator_confidence PhoneValidator_confidence
    EmailValidator_confidence CEPValidator_confidence
  show ?thesis by blast
qed

lemma kept_in_text:
  assumes "entity_in_text text e" and "e' \<in> set (kept md e)"
  shows "entity_in_text text e'"
proof (cases "validators (base_type_of (e_type e))")
  case None
  with assms show ?thesis by (simp add: kept_def validate_entity_def entity_in_text_def)
next
  case (Some v)
  from validators_total[OF Some, of "e_value e"]
  obtain r where r: "v (e_value e) = Inr r" by blast
  from assms(1) have c: "0 \<le> e_confidence e" "e_confidence e \<le> 1"
    and sp: "0 \<le> e_start e" "e_start e < e_end e" "e_end e \<le> int (length text)"
    by (simp_all add: entity_in_text_def)
  show ?thesis
  proof (cases "is_valid r")
    case True
    from valid_confidence_le_1[OF Some r True] c
    have "0 \<le> max (e_confidence e) (confidence r) \<and> max (e_confidence e) (confidence r) \<le> 1"
      by simp
    with True Some r assms(2) sp show ?thesis
      by (simp add: kept_def validate_entity_def Let_def entity_in_text_def)
  next
    case False
    from c have "0 \<le> e_confidence e * 0.5 \<and> e_confidence e * 0.5 \<le> 1" by simp
    with False Some r assms(2) sp c show ?thesis
      by (simp add: kept_def validate_entity_def Let_def entity_in_text_def split: if_splits)
  qed
qed

text \<open>
  The pattern layer alone. Let the regular-expression engine give, for this text,
  non-empty spans inside the text wherever the program reads a span, and let no external
  model be loaded or used. Then \<open>detect\<close> returns a result and every entity of the result
  satisfies \<open>0 \<le> start < end \<le> len(text)\<close> and \<open>0 \<le> confidence \<le> 1\<close>.
\<close>

lemma pattern_entities_in_text:
  assumes "engine_in_text re text"
    and "bert_model self = None \<or> \<not> use_bert (config self)"
  shows "\<exists>r. detect re self text = Inr r
           \<and> (\<forall>e \<in> set (entities r).
                 0 \<le> e_start e \<and> e_start e < e_end e \<and> e_end e \<le> int (length text)
                 \<and> 0 \<le> e_confidence e \<and> e_confidence e \<le> 1)"
proof (cases "text = [] \<or> strip text = []")
  case True
  then show ?thesis by (simp add: detect_def)
next
  case False
  define M where "M = (if use_contextual (config self)
                       then anti_false_negative_filter re (merged_entities re self text) text
                       else merged_entities re self text)"
  have M: "\<forall>e \<in> set M. entity_in_text text e"
    unfolding M_def
    using merged_entities_in_text[OF assms]
      anti_false_negative_filter_in_text[OF assms(1) merged_entities_in_text[OF assms]]
    by simp
  define V where "V = (if validate_documents (config self)
                       then concat (map (kept (mode (config self))) M) else M)"
  have V: "\<forall>e \<in> set V. entity_in_text text e"
    unfolding V_def using M by (auto intro: kept_in_text)
  have F: "\<forall>e \<in> set (apply_thresholds (thresholds (config self)) V). entity_in_text text e"
    using V by (simp add: apply_thresholds_def)
  have "detect re self text =
      Inr \<lparr>has_pii = (length (apply_thresholds (thresholds (config self)) V) > 0),
           entities = apply_thresholds (thresholds (config self)) V,
           summary = \<lparr>total_entities = length (apply_thresholds (thresholds (config self)) V),
                      by_type = count_by_type (apply_thresholds (thresholds (config self)) V)\<rparr>,
           metadata = \<lparr>text_length = length text,
                       md_mode = Some (DetectionMode_value (mode (config self))),
                       bert_enabled = Some (bert_model self \<noteq> None)\<rparr>\<rparr>"
    using False
    by (simp add: detect_def Let_def validate_consistency_eq M_def V_def)
  with F show ?thesis by (simp add: entity_in_text_def)
qed

lemma multi_text_engine_in_text: "engine_in_text multi_text_engine multi_text"
  by (simp add: engine_in_text_def multi_text_engine_def whole_match_def span_in_def
        contextual_regexes_def pattern_groups_def CPF_CONTEXTUAL_def PHONE_CONTEXTUAL_def
        EMAIL_CONTEXTUAL_def ADDRESS_CONTEXTUAL_def NAME_CONTEXTUAL_def)
     (simp add: multi_text_def u_def)

lemma balanced_no_model:
  "bert_model balanced_detector = None \<or> \<not> use_bert (config balanced_detector)"
  by (simp add: balanced_config)

text \<open>
  The engine of the text \<open>CPF: 123.456.789-09, Email: a@b.com\<close> gives spans inside its 35
  characters; the two entities of the result lie at 5 to 19 and 28 to 35 with the
  confidences 0.98 and 0.95.
\<close>

lemma pattern_entities_in_text_example:
  "engine_in_text multi_text_engine multi_text
   \<and> (\<exists>r. detect multi_text_engine balanced_detector multi_text = Inr r
         \<and> map (\<lambda>e. (e_start e, e_end e, e_confidence e)) (entities r)
             = [(5, 19, 0.98), (28, 35, 0.95)]
         \<and> list_all (\<lambda>e. 0 \<le> e_start e \<and> e_start e < e_end e \<and> e_end e \<le> 35
                         \<and> 0 \<le> e_confidence e \<and> e_confidence e \<le> 1) (entities r))"
proof -
  from pattern_entities_in_text[OF multi_text_engine_in_text balanced_no_model]
  obtain r where r: "detect multi_text_engine balanced_detector multi_text = Inr r"
    "\<forall>e \<in> set (entities r).
        0 \<le> e_start e \<and> e_start e < e_end e \<and> e_end e \<le> int (length multi_text)
        \<and> 0 \<le> e_confidence e \<and> e_confidence e \<le> 1"
    by blast
  have len: "int (length multi_text) = 35" by (simp add: multi_text_def u_def)
  from r(1) have e: "entities r = multi_final" by (auto simp: multi_text_detect)
  then have m: "map (\<lambda>e. (e_start e, e_end e, e_confidence e)) (entities r)
             = [(5, 19, 0.98), (28, 35, 0.95)]"
    by (simp add: multi_final_def)
  from r(2) len have "list_all (\<lambda>e. 0 \<le> e_start e \<and> e_start e < e_end e \<and> e_end e \<le> 35
                         \<and> 0 \<le> e_confidence e \<and> e_confidence e \<le> 1) (entities r)"
    by (simp add: list_all_iff)
  with r(1) m have "\<exists>r. detect multi_text_engine balanced_detector multi_text = Inr r
         \<and> map (\<lambda>e. (e_start e, e_end e, e_confidence e)) (entities r)
             = [(5, 19, 0.98), (28, 35, 0.95)]
         \<and> list_all (\<lambda>e. 0 \<le> e_start e \<and> e_start e < e_end e \<and> e_end e \<le> 35
                         \<and> 0 \<le> e_confidence e \<and> e_confidence e \<le> 1) (entities r)"
    by (intro exI[of _ r] conjI)
  with multi_text_engine_in_text show ?thesis
    by (intro conjI)
qed

subsection \<open>An entity of the external model at the end of the text\<close>

lemma silent_stage1: "regex_detection_aggressive silent_engine text = []"
proof -
  have "all_matches silent_engine text = []"
    by (auto simp: all_matches_def pattern_matches_def silent_engine_def)
  then have "find_all silent_engine text = []"
    by (simp add: find_all_def deduplicate_matches_def)
  then show ?thesis
    by (simp add: regex_detection_aggressive_def silent_engine_def Let_def)
qed

lemma silent_anti_fn: "anti_false_negative_filter silent_engine es text = es"
proof -
  have "find_contextual silent_engine text = []"
    by (auto simp: find_contextual_def silent_engine_def)
  then show ?thesis
    by (simp add: anti_false_negative_filter_def silent_engine_def Let_def)
qed

lemma silva_label: "bert_entity_type (u ''B-PER'') = Some ''NOME_PESSOA''"
  by (simp add: bert_entity_type_def startswith_def u_def)

lemma silva_bert:
  "bert_contextual_detection loaded_detector silva_text =
     [bert_entity ''NOME_PESSOA'' (u ''Silva'') 10 0]"
proof -
  have s: "slice silva_text 10 15 = u ''Silva''"
    by (simp add: slice_def silva_text_def u_def)
  have t: "strip (u ''Silva'') = u ''Silva''"
    by (simp add: strip_def isspace_char_def in_ranges_def space_ranges_def u_def)
  have n: "u ''Silva'' \<noteq> []" by (simp add: u_def)
  show ?thesis
    by (simp add: bert_contextual_detection_def loaded_detector_def silva_model_def
          silva_label s t n)
qed

lemma silva_text_not_blank: "silva_text \<noteq> [] \<and> strip silva_text \<noteq> []"
  by (simp add: silva_text_def strip_def isspace_char_def in_ranges_def space_ranges_def u_def)

lemma loaded_config:
  "use_bert (config loaded_detector)"
  "use_contextual (config loaded_detector)"
  "validate_documents (config loaded_detector)"
  "mode (config loaded_detector) = BALANCED"
  "bert_model loaded_detector = Some silva_model"
  by (simp_all add: loaded_detector_def get_config_for_mode_def default_config_def)

text \<open>
  C4. The span of an entity of the external model can end before it starts. An entity
  that is open when the end-of-sequence token comes is closed with the first offset of
  that token, which is 0. With \<open>Silva\<close> labelled as a person in \<open>Falei com Silva\<close>,
  \<open>detect\<close> in the balanced mode returns one entity, and it has the start 10 and the
  end 0: the bounds \<open>0 \<le> start < end \<le> len(text)\<close> fail for it.
\<close>

theorem bert_entity_ends_at_0:
  "detect silent_engine loaded_detector silva_text =
     Inr \<lparr>has_pii = True, entities = [silva_entity],
          summary = \<lparr>total_entities = 1, by_type = [(''NOME_PESSOA'', 1)]\<rparr>,
          metadata = \<lparr>text_length = 15, md_mode = Some ''balanced'',
                      bert_enabled = Some True\<rparr>\<rparr>
   \<and> e_start silva_entity = 10 \<and> e_end silva_entity = 0
   \<and> \<not> entity_in_text silva_text silva_entity"
proof -
  have m: "merged_entities silent_engine loaded_detector silva_text =
             [bert_entity ''NOME_PESSOA'' (u ''Silva'') 10 0]"
    by (simp add: merged_entities_def loaded_config silent_stage1 silva_bert
          merge_detections_def Let_def)
  have b: "base_type_of ''NOME_PESSOA'' = ''NOME_PESSOA''"
    by (simp add: base_type_of_def)
  have v: "validate_consistency BALANCED [bert_entity ''NOME_PESSOA'' (u ''Silva'') 10 0]
             = Inr [silva_entity]"
    by (simp add: validate_entity_def bert_entity_def new_Entity_def b validators_def
          silva_entity_def)
  have th: "apply_thresholds (thresholds (config loaded_detector)) [silva_entity]
              = [silva_entity]"
    by (simp add: apply_thresholds_def silva_entity_def threshold_for_def loaded_detector_def
          get_config_for_mode_def default_config_def b)
  have cnt: "count_by_type [silva_entity] = [(''NOME_PESSOA'', 1)]"
    by (simp add: count_by_type_def silva_entity_def bump_def b)
  have len: "length silva_text = 15" by (simp add: silva_text_def u_def)
  have d: "detect silent_engine loaded_detector silva_text =
     Inr \<lparr>has_pii = True, entities = [silva_entity],
          summary = \<lparr>total_entities = 1, by_type = [(''NOME_PESSOA'', 1)]\<rparr>,
          metadata = \<lparr>text_length = 15, md_mode = Some ''balanced'',
                      bert_enabled = Some True\<rparr>\<rparr>"
    using silva_text_not_blank
    by (simp add: detect_def loaded_config m silent_anti_fn v th cnt len Let_def
          del: validate_consistency.simps)
  have e: "e_start silva_entity = 10 \<and> e_end silva_entity = 0
             \<and> \<not> entity_in_text silva_text silva_entity"
    by (simp add: silva_entity_def entity_in_text_def)
  from d e show ?thesis by (rule conjI)
qed

subsection \<open>The check digits\<close>

lemma mod11_rule:
  "((t::int) * 10 mod 11) mod 10 = (if t mod 11 < 2 then 0 else 11 - t mod 11)"
proof -
  define r where "r = t mod 11"
  have "0 \<le> r" "r < 11" by (simp_all add: r_def)
  then have "r \<in> {0, 1, 2, 3, 4, 5, 6, 7, 8, 9, 10}" by simp arith
  then have "(r * 10 mod 11) mod 10 = (if r < 2 then 0 else 11 - r)" by auto
  moreover have "t * 10 mod 11 = r * 10 mod 11" by (simp add: r_def mod_mult_left_eq)
  ultimately show ?thesis by (simp add: r_def)
qed

lemma cpf_expected_official: "cpf_expected ds ws = mod11_check_digit (weighted_sum ds ws)"
  by (simp add: cpf_expected_def mod11_check_digit_def mod11_rule)

lemma cnpj_expected_official: "cnpj_expected ds ws = mod11_check_digit (weighted_sum ds ws)"
  by (simp add: cnpj_expected_def mod11_check_digit_def Let_def)

lemma ascii_decimal_value:
  "c < 128 \<Longrightarrow> decimal_value c = (if 48 \<le> c \<and> c < 58 then Some (c - 48) else None)"
  by (simp add: decimal_value_def nd_zeros_def)

lemma ascii_digit_of:
  "c < 128 \<Longrightarrow> is_decimal c \<Longrightarrow> 48 \<le> c \<and> c < 58 \<and> digit_of c = int c - 48"
  by (auto simp: is_decimal_def digit_of_def ascii_decimal_value split: if_splits)

lemma remdups_le_1_all_equal:
  "length (remdups xs) \<le> 1 \<Longrightarrow> x \<in> set xs \<Longrightarrow> y \<in> set xs \<Longrightarrow> x = y"
proof -
  assume a: "length (remdups xs) \<le> 1" "x \<in> set xs" "y \<in> set xs"
  have "card (set xs) = length (remdups xs)" by (rule card_set)
  with a(1) have "card (set xs) \<le> 1" by simp
  with a(2,3) show "x = y"
    by (metis List.finite_set card_le_Suc0_iff_eq One_nat_def)
qed

lemma remdups_replicate_le: "length (remdups (replicate n x)) \<le> 1"
  by (induction n) auto

lemma ascii_all_repeated:
  assumes "\<forall>c \<in> set cs. c < 128" and "list_all is_decimal cs" and "cs \<noteq> []"
  shows "all_repeated cs \<longleftrightarrow> (\<exists>d \<in> {48..<58}. cs = replicate (length cs) d)"
proof
  assume "\<exists>d \<in> {48..<58}. cs = replicate (length cs) d"
  then obtain d where "cs = replicate (length cs) d" by blast
  then have "map digit_of cs = replicate (length cs) (digit_of d)"
    by (metis map_replicate)
  then show "all_repeated cs"
    using remdups_replicate_le[of "length cs" "digit_of d"] by (simp add: all_repeated_def)
next
  assume r: "all_repeated cs"
  from assms(3) obtain d where d: "d \<in> set cs" by (cases cs) auto
  with assms have "d < 128" "is_decimal d" by (auto simp: list_all_iff)
  then have dd: "48 \<le> d \<and> d < 58 \<and> digit_of d = int d - 48" by (rule ascii_digit_of)
  have "\<forall>c \<in> set cs. c = d"
  proof
    fix c assume c: "c \<in> set cs"
    with assms have "c < 128" "is_decimal c" by (auto simp: list_all_iff)
    then have cc: "48 \<le> c \<and> c < 58 \<and> digit_of c = int c - 48" by (rule ascii_digit_of)
    from r c d have "digit_of c = digit_of d"
      unfolding all_repeated_def by (intro remdups_le_1_all_equal[of "map digit_of cs"]) auto
    with cc dd show "c = d" by linarith
  qed
  then have "cs = replicate (length cs) d" by (simp add: replicate_length_same)
  with dd show "\<exists>d \<in> {48..<58}. cs = replicate (length cs) d" by auto
qed

lemma in_INVALID_CPFS: "cs \<in> set INVALID_CPFS \<longleftrightarrow> (\<exists>d \<in> {48..<58}. cs = replicate 11 d)"
proof -
  have "{48..<58::nat} = {48, 49, 50, 51, 52, 53, 54, 55, 56, 57}" by auto arith
  then show ?thesis by (auto simp: INVALID_CPFS_def)
qed

lemma in_INVALID_CNPJS: "cs \<in> set INVALID_CNPJS \<longleftrightarrow> (\<exists>d \<in> {48..<58}. cs = replicate 14 d)"
proof -
  have "{48..<58::nat} = {48, 49, 50, 51, 52, 53, 54, 55, 56, 57}" by auto arith
  then show ?thesis by (auto simp: INVALID_CNPJS_def)
qed

lemma isdigit_clean: "clean s \<noteq> [] \<Longrightarrow> isdigit (clean s)"
  using clean_all_decimal[of s] by (auto simp: isdigit_def isdigit_char_def list_all_iff)

text \<open>
  When every digit of the input is an ASCII digit, both validators give the verdict and
  the confidence that the specification describes.
\<close>

lemma CPFValidator_exact_on_ascii:
  assumes "\<forall>c \<in> set (clean s). c < 128"
  shows "\<exists>r. CPFValidator_validate s = Inr r \<and> is_valid r = official_cpf_valid s
           \<and> confidence r = (if official_cpf_valid s then 0.98
                              else if length (clean s) = 11 \<and> \<not> all_repeated (clean s)
                              then 0.3 else 0)"
proof (cases "length (clean s) = 11")
  case False
  then show ?thesis by (simp add: CPFValidator_validate_def official_cpf_valid_def Let_def)
next
  case True
  then have ne: "clean s \<noteq> []" by auto
  from ascii_all_repeated[OF assms clean_all_decimal ne] True
  have rep: "clean s \<in> set INVALID_CPFS \<longleftrightarrow> all_repeated (clean s)"
    by (simp add: in_INVALID_CPFS)
  from True have len: "length (map digit_of (clean s)) = 11" by simp
  show ?thesis
    using True rep isdigit_clean[OF ne]
    by (simp add: CPFValidator_validate_def official_cpf_valid_def Let_def int_each_clean
          index_def cpf_expected_official CPF_WEIGHTS_FIRST_def CPF_WEIGHTS_SECOND_def)
qed

lemma CNPJValidator_exact_on_ascii:
  assumes "\<forall>c \<in> set (clean s). c < 128"
  shows "\<exists>r. CNPJValidator_validate s = Inr r \<and> is_valid r = official_cnpj_valid s
           \<and> confidence r = (if official_cnpj_valid s then 0.98
                              else if length (clean s) = 14 \<and> \<not> all_repeated (clean s)
                              then 0.3 else 0)"
proof (cases "length (clean s) = 14")
  case False
  then show ?thesis by (simp add: CNPJValidator_validate_def official_cnpj_valid_def Let_def)
next
  case True
  then have ne: "clean s \<noteq> []" by auto
  from ascii_all_repeated[OF assms clean_all_decimal ne] True
  have rep: "clean s \<in> set INVALID_CNPJS \<longleftrightarrow> all_repeated (clean s)"
    by (simp add: in_INVALID_CNPJS)
  show ?thesis
    using True rep isdigit_clean[OF ne]
    by (simp add: CNPJValidator_validate_def official_cnpj_valid_def Let_def int_each_clean
          index_def cnpj_expected_official WEIGHTS_FIRST_def WEIGHTS_SECOND_def)
qed

lemma test_vectors:
  "\<exists>r. CPFValidator_validate (u ''529.982.247-25'') = Inr r \<and> is_valid r
        \<and> confidence r = 0.98"
  "\<exists>r. CPFValidator_validate (u ''111.111.111-11'') = Inr r \<and> \<not> is_valid r
        \<and> confidence r = 0"
  "\<exists>r. CNPJValidator_validate (u ''11.222.333/0001-81'') = Inr r \<and> is_valid r
        \<and> confidence r = 0.98"
  "\<exists>r. CNPJValidator_validate (u ''11.111.111/1111-11'') = Inr r \<and> \<not> is_valid r
        \<and> confidence r = 0"
  by (simp_all add: cpf_eval cnpj_eval str_eval)

lemma arabic_ones_clean: "clean arabic_ones = arabic_ones"
  by (simp add: arabic_ones_def str_eval)

lemma arabic_ones_digits: "map digit_of arabic_ones = replicate 11 1"
  by (simp add: arabic_ones_def str_eval)

text \<open>
  C2. On strings whose digits are ASCII digits both validators give the verdict and the
  confidence of the claim, its four examples included. The claim fails when the digits are
  decimal digits of another script, which \<open>\D\<close> keeps and \<open>int\<close> reads: the list of
  repeated sequences holds the ten ASCII strings only. Eleven times the Arabic-Indic digit
  one is the sequence 111.111.111-11, one digit repeated, and \<open>CPFValidator.validate\<close>
  returns valid with the confidence 0.98.
\<close>

theorem cpf_repeated_arabic_digits_valid:
  "CPFValidator_validate arabic_ones =
     Inr \<lparr>is_valid = True, confidence = 0.98, message = cpf_msg_valid,
          cleaned_value = Some arabic_ones\<rparr>
   \<and> clean arabic_ones = arabic_ones \<and> length arabic_ones = 11
   \<and> map digit_of arabic_ones = map digit_of (u ''11111111111'')
   \<and> all_repeated arabic_ones \<and> \<not> official_cpf_valid arabic_ones"
proof -
  have 1: "CPFValidator_validate arabic_ones =
     Inr \<lparr>is_valid = True, confidence = 0.98, message = cpf_msg_valid,
          cleaned_value = Some arabic_ones\<rparr>"
    by (simp add: arabic_ones_def cpf_eval str_eval)
  have 2: "length arabic_ones = 11" by (simp add: arabic_ones_def)
  have 3: "map digit_of (u ''11111111111'') = replicate 11 1" by (simp add: str_eval)
  have 4: "all_repeated arabic_ones"
    by (simp add: all_repeated_def arabic_ones_digits replicate_11)
  then have 5: "\<not> official_cpf_valid arabic_ones"
    by (simp add: official_cpf_valid_def arabic_ones_clean Let_def)
  from 1 2 3 4 5 arabic_ones_clean arabic_ones_digits show ?thesis by simp
qed

end
